theory Spec2Isabelle
  imports Main "HOL-Library.Sublist"
begin

section \<open>JavaScript values and string helpers\<close>

text \<open>
  A JavaScript string is modelled as a \<^typ>\<open>string\<close>: one \<^typ>\<open>char\<close> per code unit
  (code units below 256).  \<open>null\<close> and \<open>undefined\<close> are \<^term>\<open>None\<close>.
\<close>

definition truthy :: "string option \<Rightarrow> bool" where
  \<comment> \<open>JavaScript truthiness of a value of type \<open>string | null | undefined\<close>\<close>
  "truthy v = (case v of None \<Rightarrow> False | Some s \<Rightarrow> s \<noteq> [])"

definition str_of :: "string option \<Rightarrow> string" where
  \<comment> \<open>the string itself; used only where the value is known to be truthy\<close>
  "str_of v = (case v of None \<Rightarrow> [] | Some s \<Rightarrow> s)"

definition js_or :: "string option \<Rightarrow> string option \<Rightarrow> string option" where
  \<comment> \<open>\<open>a || b\<close>\<close>
  "js_or a b = (if truthy a then a else b)"

function js_split :: "string \<Rightarrow> string \<Rightarrow> string list" where
  \<comment> \<open>\<open>s.split(sep)\<close> for a non-empty separator: scan left to right, cut at each match\<close>
  "js_split sep [] = [[]]"
| "js_split sep (c # cs) =
     (if sep \<noteq> [] \<and> prefix sep (c # cs) then [] # js_split sep (drop (length sep) (c # cs))
      else (case js_split sep cs of
              p # ps \<Rightarrow> (c # p) # ps
            | [] \<Rightarrow> [[c]]))"
  by pat_completeness auto
termination
  by (relation "measure (\<lambda>(sep, s). length s)") (auto simp: neq_Nil_conv)

section \<open>The credential service (openaiOAuth.ts)\<close>

subsection \<open>Data\<close>

datatype auth_status = Idle | Pending | Success | Error

record OAuthState =
  status :: auth_status
  error :: "string option"

record PkceCodes =
  verifier :: string
  challenge :: string

record TokenResponse =
  id_token :: string
  access_token :: string
  refresh_token :: string
  expires_in :: "int option"

text \<open>\<open>OpenAIAuth\<close>: the field \<open>type\<close> is the constant \<open>"oauth"\<close> and is left out.\<close>

record OpenAIAuth =
  access :: string
  refresh :: string
  expires :: int
  accountId :: "string option"

record PendingOAuth =
  pkce :: PkceCodes
  state :: string
  timeout :: nat  \<comment> \<open>the handle \<open>setTimeout\<close> returned\<close>

record IdTokenClaims =
  chatgpt_account_id :: "string option"
  auth_chatgpt_account_id :: "string option"  \<comment> \<open>\<open>claims["https://api.openai.com/auth"]?.chatgpt_account_id\<close>\<close>
  organizations :: "string list option"  \<comment> \<open>the \<open>id\<close> of each organization\<close>

text \<open>Calls that leave the process: the issuer's token endpoint and the credential file.\<close>

datatype effect =
    TokenExchange string string PkceCodes  \<comment> \<open>code, redirect URI, PKCE pair\<close>
  | TokenRefresh string
  | WriteAuth OpenAIAuth
  | Unlink

text \<open>
  The module's variables (\<open>server\<close>, \<open>pending\<close>, \<open>oauthState\<close>) and what they act on:
  the credential file (\<^term>\<open>None\<close> when it is missing, unreadable, not JSON or not of
  type \<open>"oauth"\<close>), the timers that are armed, and the log of outside calls.
\<close>

record world =
  server :: bool
  pending :: "PendingOAuth option"
  oauthState :: OAuthState
  auth_file :: "OpenAIAuth option"
  timers :: "nat list"
  next_timer :: nat
  effects :: "effect list"

text \<open>What the surroundings answer during one call.\<close>

record environment =
  exchange :: "string \<Rightarrow> string \<Rightarrow> PkceCodes \<Rightarrow> string + TokenResponse"
    \<comment> \<open>\<open>exchangeCodeForTokens\<close>: the thrown error's message, or the tokens\<close>
  refreshAccessToken :: "string \<Rightarrow> string + TokenResponse"
  decode_claims :: "string \<Rightarrow> IdTokenClaims option"
    \<comment> \<open>\<open>JSON.parse(Buffer.from(segment, "base64url").toString())\<close>; \<^term>\<open>None\<close> when it
        throws or yields a falsy value\<close>
  now :: int  \<comment> \<open>\<open>Date.now()\<close> at the expiry check\<close>
  now_issued :: int  \<comment> \<open>\<open>Date.now()\<close> when a new credential is built\<close>
  write_error :: "string option"  \<comment> \<open>the error of \<open>fs.mkdir\<close>/\<open>fs.writeFile\<close>, if any\<close>
  listen_error :: "string option"  \<comment> \<open>the error of \<open>server.listen\<close>, if any\<close>

datatype page = HtmlSuccess | HtmlError string | Plain string

record reply =
  code :: nat
  body :: page

definition redirect_uri :: string where
  "redirect_uri = ''http://localhost:1455/auth/callback''"

definition OAUTH_TIMEOUT_MS :: nat where
  "OAUTH_TIMEOUT_MS = 5 * 60 * 1000"

subsection \<open>Claims\<close>

definition parseJwtClaims :: "environment \<Rightarrow> string \<Rightarrow> IdTokenClaims option" where
  "parseJwtClaims env token =
     (let parts = js_split ''.'' token
      in if length parts \<noteq> 3 then None else decode_claims env (parts ! 1))"

definition extractAccountIdFromClaims :: "IdTokenClaims \<Rightarrow> string option" where
  "extractAccountIdFromClaims claims =
     js_or (chatgpt_account_id claims)
       (js_or (auth_chatgpt_account_id claims)
          (case organizations claims of
             None \<Rightarrow> None
           | Some [] \<Rightarrow> None
           | Some (org # _) \<Rightarrow> Some org))"

definition extractAccountId :: "environment \<Rightarrow> TokenResponse \<Rightarrow> string option" where
  "extractAccountId env tokens =
     (let fromId =
            (if id_token tokens \<noteq> [] then
               (case parseJwtClaims env (id_token tokens) of
                  None \<Rightarrow> None
                | Some claims \<Rightarrow> extractAccountIdFromClaims claims)
             else None)
      in if truthy fromId then fromId
         else if access_token tokens \<noteq> [] then
           (case parseJwtClaims env (access_token tokens) of
              None \<Rightarrow> None
            | Some claims \<Rightarrow> extractAccountIdFromClaims claims)
         else None)"

subsection \<open>The credential file\<close>

definition readAuth :: "world \<Rightarrow> OpenAIAuth option" where
  "readAuth w =
     (case auth_file w of
        None \<Rightarrow> None
      | Some parsed \<Rightarrow>
          if access parsed \<noteq> [] \<and> refresh parsed \<noteq> [] \<and> expires parsed \<noteq> 0
          then Some parsed else None)"

definition writeAuth :: "environment \<Rightarrow> OpenAIAuth \<Rightarrow> world \<Rightarrow> string + world" where
  "writeAuth env auth w =
     (case write_error env of
        Some e \<Rightarrow> Inl e
      | None \<Rightarrow> Inr (w\<lparr>auth_file := Some auth, effects := effects w @ [WriteAuth auth]\<rparr>))"

definition clearOpenAIAuth :: "world \<Rightarrow> world" where
  "clearOpenAIAuth w =
     w\<lparr>auth_file := None, effects := effects w @ [Unlink],
       oauthState := \<lparr>status = Idle, error = None\<rparr>\<rparr>"

definition new_auth :: "environment \<Rightarrow> TokenResponse \<Rightarrow> string option \<Rightarrow> OpenAIAuth" where
  \<comment> \<open>the object literal both \<open>handleCallback\<close> and \<open>ensureOpenAIAuth\<close> build\<close>
  "new_auth env tokens acct =
     \<lparr>access = access_token tokens,
      refresh = refresh_token tokens,
      expires = now_issued env + (case expires_in tokens of None \<Rightarrow> 3600 | Some n \<Rightarrow> n) * 1000,
      accountId = (if truthy acct then acct else None)\<rparr>"

definition ensureOpenAIAuth :: "environment \<Rightarrow> world \<Rightarrow> (string + OpenAIAuth option) \<times> world" where
  "ensureOpenAIAuth env w =
     (case readAuth w of
        None \<Rightarrow> (Inr None, w)
      | Some auth \<Rightarrow>
          if access auth = [] \<or> expires auth < now env then
            (let w1 = w\<lparr>effects := effects w @ [TokenRefresh (refresh auth)]\<rparr>
             in case refreshAccessToken env (refresh auth) of
                  Inl e \<Rightarrow> (Inl e, w1)
                | Inr tokens \<Rightarrow>
                    (let acct = js_or (extractAccountId env tokens) (accountId auth);
                         updated = new_auth env tokens acct
                     in case writeAuth env updated w1 of
                          Inl e \<Rightarrow> (Inl e, w1)
                        | Inr w2 \<Rightarrow> (Inr (Some updated), w2)))
          else (Inr (Some auth), w))"

record auth_report =
  report_status :: auth_status
  report_error :: "string option"
  connected :: bool
  report_accountId :: "string option"

definition getOpenAIAuthStatus :: "world \<Rightarrow> auth_report" where
  "getOpenAIAuthStatus w =
     (let auth = readAuth w;
          st = (if auth \<noteq> None \<and> status (oauthState w) = Idle then Success
                else status (oauthState w))
      in \<lparr>report_status = st,
          report_error = error (oauthState w),
          connected = (auth \<noteq> None),
          report_accountId = (case auth of None \<Rightarrow> None | Some a \<Rightarrow> accountId a)\<rparr>)"

subsection \<open>The authorization session\<close>

definition clearPending :: "world \<Rightarrow> world" where
  "clearPending w =
     (case pending w of
        Some p \<Rightarrow> w\<lparr>timers := removeAll (timeout p) (timers w), pending := None\<rparr>
      | None \<Rightarrow> w\<lparr>pending := None\<rparr>)"

definition stopOAuthServer :: "world \<Rightarrow> world" where
  "stopOAuthServer w = (if \<not> server w then w else w\<lparr>server := False\<rparr>)"

definition fail_with :: "string \<Rightarrow> world \<Rightarrow> world" where
  \<comment> \<open>the three statements every failing path runs\<close>
  "fail_with message w =
     stopOAuthServer (clearPending (w\<lparr>oauthState := \<lparr>status = Error, error = Some message\<rparr>\<rparr>))"

record callback_url =
  q_code :: "string option"
  q_state :: "string option"
  q_error :: "string option"
  q_error_description :: "string option"

definition handleCallback :: "environment \<Rightarrow> callback_url \<Rightarrow> world \<Rightarrow> reply \<times> world" where
  "handleCallback env url w =
     (if truthy (q_error url) then
        (let message = str_of (js_or (q_error_description url) (q_error url))
         in (\<lparr>code = 400, body = HtmlError message\<rparr>, fail_with message w))
      else if \<not> truthy (q_code url) then
        (let message = ''Missing authorization code''
         in (\<lparr>code = 400, body = HtmlError message\<rparr>, fail_with message w))
      else
        (case pending w of
           None \<Rightarrow>
             (let message = ''Invalid state - potential CSRF attack''
              in (\<lparr>code = 400, body = HtmlError message\<rparr>, fail_with message w))
         | Some p \<Rightarrow>
             if q_state url \<noteq> Some (state p) then
               (let message = ''Invalid state - potential CSRF attack''
                in (\<lparr>code = 400, body = HtmlError message\<rparr>, fail_with message w))
             else
               (let c = str_of (q_code url);
                    w1 = w\<lparr>effects := effects w @ [TokenExchange c redirect_uri (pkce p)]\<rparr>
                in case exchange env c redirect_uri (pkce p) of
                     Inl message \<Rightarrow> (\<lparr>code = 500, body = HtmlError message\<rparr>, fail_with message w1)
                   | Inr tokens \<Rightarrow>
                       (let auth = new_auth env tokens (extractAccountId env tokens)
                        in case writeAuth env auth w1 of
                             Inl message \<Rightarrow>
                               (\<lparr>code = 500, body = HtmlError message\<rparr>, fail_with message w1)
                           | Inr w2 \<Rightarrow>
                               (\<lparr>code = 200, body = HtmlSuccess\<rparr>,
                                stopOAuthServer (clearPending
                                  (w2\<lparr>oauthState := \<lparr>status = Success, error = None\<rparr>\<rparr>)))))))"

definition handleCancel :: "world \<Rightarrow> reply \<times> world" where
  "handleCancel w = (\<lparr>code = 200, body = Plain ''Login cancelled''\<rparr>, fail_with ''Login cancelled'' w)"

definition timeout_fires :: "nat \<Rightarrow> world \<Rightarrow> world" where
  \<comment> \<open>the callback given to \<open>setTimeout\<close>; a timer that was cleared never fires\<close>
  "timeout_fires t w =
     (if t \<in> set (timers w) then
        fail_with ''OAuth callback timeout - authorization took too long''
          (w\<lparr>timers := removeAll t (timers w)\<rparr>)
      else w)"

definition startOAuthServer :: "environment \<Rightarrow> world \<Rightarrow> string option \<times> world" where
  \<comment> \<open>\<open>server\<close> is assigned before \<open>listen\<close> is awaited, so it stays set when \<open>listen\<close> fails\<close>
  "startOAuthServer env w =
     (if server w then (None, w) else (listen_error env, w\<lparr>server := True\<rparr>))"

definition startOpenAIAuthorize ::
  "environment \<Rightarrow> PkceCodes \<Rightarrow> string \<Rightarrow> world \<Rightarrow> (string + string \<times> string) \<times> world" where
  \<comment> \<open>\<open>pk\<close> and \<open>st\<close> are what \<open>generatePKCE\<close> and \<open>generateState\<close> drew; the result stands
      for the authorize URL, which carries the challenge and the state\<close>
  "startOpenAIAuthorize env pk st w =
     (case startOAuthServer env w of
        (Some e, w1) \<Rightarrow> (Inl e, w1)
      | (None, w1) \<Rightarrow>
          (let w2 = clearPending w1;
               t = next_timer w2;
               w3 = w2\<lparr>pending := Some \<lparr>pkce = pk, state = st, timeout = t\<rparr>,
                       timers := timers w2 @ [t],
                       next_timer := Suc t,
                       oauthState := \<lparr>status = Pending, error = None\<rparr>\<rparr>
           in (Inr (challenge pk, st), w3)))"

subsection \<open>Sequences of operations\<close>

datatype op =
    Start environment PkceCodes string
  | Callback environment callback_url
  | Timeout nat
  | Cancel

fun apply_op :: "op \<Rightarrow> world \<Rightarrow> world" where
  "apply_op (Start env pk st) w = snd (startOpenAIAuthorize env pk st w)"
| "apply_op (Callback env url) w = snd (handleCallback env url w)"
| "apply_op (Timeout t) w = timeout_fires t w"
| "apply_op Cancel w = snd (handleCancel w)"

fun run :: "op list \<Rightarrow> world \<Rightarrow> world" where
  "run [] w = w"
| "run (x # xs) w = run xs (apply_op x w)"




definition initial_world :: "OpenAIAuth option \<Rightarrow> world" where
  \<comment> \<open>the module as loaded, beside whatever credential file is on disk\<close>
  "initial_world file =
     \<lparr>server = False, pending = None, oauthState = \<lparr>status = Idle, error = None\<rparr>,
      auth_file = file, timers = [], next_timer = 0, effects = []\<rparr>"


subsection \<open>The handlers between their awaits\<close>






datatype step =
    Listen environment
  | Arm PkceCodes string
  | Redirect callback_url
  | Exchanged environment "string + TokenResponse"
  | Written environment OpenAIAuth
  | Fire nat
  | CancelRequest






section \<open>The gateway (llm and callCodex)\<close>

subsection \<open>Values parsed from JSON\<close>

text \<open>
  What \<open>JSON.parse\<close> returns.  \<open>'n\<close> is the type of numbers; an object is the list of its
  own properties (no key twice).  A value that may be \<open>undefined\<close> is an option.
\<close>

datatype 'n json =
    JNull
  | JBool bool
  | JNum 'n
  | JStr string
  | JArr "'n json list"
  | JObj "(string \<times> 'n json) list"

text \<open>What the JavaScript platform supplies and the code only calls.\<close>

record 'n platform =
  json_parse :: "string \<Rightarrow> 'n json option"  \<comment> \<open>\<open>JSON.parse\<close>; \<^term>\<open>None\<close> when it throws\<close>
  num_truthy :: "'n \<Rightarrow> bool"  \<comment> \<open>a number is truthy unless it is zero\<close>
  to_string :: "'n json \<Rightarrow> string"  \<comment> \<open>\<open>ToString\<close> of a value that is not a string\<close>

definition get_prop :: "'n json option \<Rightarrow> string \<Rightarrow> 'n json option" where
  \<comment> \<open>\<open>v?.k\<close>; the keys read here are no property of a primitive or an array\<close>
  "get_prop v k = (case v of Some (JObj kvs) \<Rightarrow> map_of kvs k | _ \<Rightarrow> None)"

definition truthy_value :: "'n platform \<Rightarrow> 'n json option \<Rightarrow> bool" where
  "truthy_value P v =
     (case v of
        None \<Rightarrow> False
      | Some JNull \<Rightarrow> False
      | Some (JBool b) \<Rightarrow> b
      | Some (JNum n) \<Rightarrow> num_truthy P n
      | Some (JStr s) \<Rightarrow> s \<noteq> []
      | Some (JArr _) \<Rightarrow> True
      | Some (JObj _) \<Rightarrow> True)"

definition js_string :: "'n platform \<Rightarrow> 'n json \<Rightarrow> string" where
  "js_string P v = (case v of JStr s \<Rightarrow> s | _ \<Rightarrow> to_string P v)"

subsection \<open>String methods\<close>

definition startsWith :: "string \<Rightarrow> string \<Rightarrow> bool" where
  "startsWith s p = prefix p s"

definition is_space :: "char \<Rightarrow> bool" where
  \<comment> \<open>the white space and line terminators \<open>trim\<close> removes, among code units below 256:
      tab, line feed, vertical tab, form feed, carriage return, space, no-break space\<close>
  "is_space c = (of_char c \<in> {9, 10, 11, 12, 13, 32, 160 :: nat})"

definition trim :: "string \<Rightarrow> string" where
  "trim s = rev (dropWhile is_space (rev (dropWhile is_space s)))"

fun join :: "string \<Rightarrow> string list \<Rightarrow> string" where
  "join sep [] = []"
| "join sep [x] = x"
| "join sep (x # y # ys) = x @ sep @ join sep (y # ys)"

definition pop_or_empty :: "string list \<Rightarrow> string" where
  \<comment> \<open>\<open>parts.pop() || ''\<close>: the element \<open>pop\<close> removes, the empty string when there is none\<close>
  "pop_or_empty parts = (if parts = [] then [] else last parts)"

definition digit :: "nat \<Rightarrow> char" where
  "digit d = char_of (48 + d)"

function decimal :: "nat \<Rightarrow> string" where
  \<comment> \<open>a number in a template literal\<close>
  "decimal n = (if n < 10 then [digit n] else decimal (n div 10) @ [digit (n mod 10)])"
  by pat_completeness auto
termination
  by (relation "measure id") auto

declare decimal.simps [simp del]

subsection \<open>Decoding the event stream\<close>

definition as_string :: "'n json option \<Rightarrow> string option" where
  \<comment> \<open>the value when \<open>typeof v === 'string'\<close>\<close>
  "as_string v = (case v of Some (JStr s) \<Rightarrow> Some s | _ \<Rightarrow> None)"

definition on_event :: "'n platform \<Rightarrow> 'n json \<Rightarrow> 'n json \<Rightarrow> 'n json" where
  \<comment> \<open>the three statements after \<open>JSON.parse\<close>, on the output so far\<close>
  "on_event P event output =
     (let ty = get_prop (Some event) ''type'';
          output1 =
            (case as_string (get_prop (Some event) ''delta'') of
               Some delta \<Rightarrow>
                 if ty = Some (JStr ''response.output_text.delta'')
                 then JStr (js_string P output @ delta) else output
             | None \<Rightarrow> output);
          output2 =
            (case as_string (get_prop (Some event) ''text'') of
               Some text \<Rightarrow>
                 if \<not> truthy_value P (Some output1) \<and> ty = Some (JStr ''response.output_text.done'')
                 then JStr text else output1
             | None \<Rightarrow> output1);
          output_text = get_prop (get_prop (Some event) ''response'') ''output_text''
      in case output_text of
           Some v \<Rightarrow>
             if \<not> truthy_value P (Some output2) \<and> truthy_value P output_text then v else output2
         | None \<Rightarrow> output2)"

definition block_data :: "string \<Rightarrow> string option" where
  \<comment> \<open>the payload of one block; \<^term>\<open>None\<close> when the block has no data line\<close>
  "block_data part =
     (let lines = js_split ''\<newline>'' part;
          dataLines = filter (\<lambda>line. startsWith line ''data:'') lines
      in if length dataLines = 0 then None
         else Some (join ''\<newline>'' (map (\<lambda>line. trim (drop 5 line)) dataLines)))"

definition process_part :: "'n platform \<Rightarrow> 'n json \<Rightarrow> string \<Rightarrow> 'n json" where
  \<comment> \<open>the body of \<open>for (const part of parts)\<close>\<close>
  "process_part P output part =
     (case block_data part of
        None \<Rightarrow> output
      | Some data \<Rightarrow>
          if data = [] \<or> data = ''[DONE]'' then output
          else (case json_parse P data of
                  None \<Rightarrow> output
                | Some event \<Rightarrow> on_event P event output))"

text \<open>
  The \<open>while (true)\<close> loop over \<open>reader.read()\<close>.  The list holds the chunks the reader
  delivers before \<open>done\<close>, each as the text the streaming decoder makes of it.
\<close>

fun read_loop :: "'n platform \<Rightarrow> string \<Rightarrow> 'n json \<Rightarrow> string list \<Rightarrow> 'n json" where
  "read_loop P buffer output [] = output"
| "read_loop P buffer output (chunk # rest) =
     (let buffer1 = buffer @ chunk;
          parts = js_split ''\<newline>\<newline>'' buffer1;
          buffer2 = pop_or_empty parts
      in read_loop P buffer2 (foldl (process_part P) output (butlast parts)) rest)"

subsection \<open>One request\<close>

record js_error =
  message :: string
  err_status :: "nat option"  \<comment> \<open>the \<open>status\<close> property, when the error has one\<close>

datatype stream_end = EndOfStream | ReadFailed string

record http_response =
  resp_status :: nat
  resp_text :: "string + string"  \<comment> \<open>\<open>response.text()\<close>: its error, or the text\<close>
  resp_body :: "(string list \<times> stream_end) option"
    \<comment> \<open>\<open>response.body\<close>: the chunks read, and how the reading ended\<close>

datatype fetch_result = Rejected string | Responded http_response

definition ok :: "http_response \<Rightarrow> bool" where
  "ok r = (200 \<le> resp_status r \<and> resp_status r \<le> 299)"

fun callCodex :: "'n platform \<Rightarrow> fetch_result \<Rightarrow> js_error + 'n json" where
  "callCodex P (Rejected m) = Inl \<lparr>message = m, err_status = None\<rparr>"
| "callCodex P (Responded response) =
     (if \<not> ok response then
        (case resp_text response of
           Inl m \<Rightarrow> Inl \<lparr>message = m, err_status = None\<rparr>
         | Inr text \<Rightarrow>
             Inl \<lparr>message = (if text \<noteq> [] then decimal (resp_status response) @ '' '' @ text
                              else decimal (resp_status response)),
                  err_status = Some (resp_status response)\<rparr>)
      else
        (case resp_body response of
           None \<Rightarrow> Inr (JStr [])
         | Some (chunks, EndOfStream) \<Rightarrow> Inr (read_loop P [] (JStr []) chunks)
         | Some (chunks, ReadFailed m) \<Rightarrow> Inl \<lparr>message = m, err_status = None\<rparr>))"

subsection \<open>The fallback chain and the retry loops\<close>

definition priority_models :: "string list" where
  "priority_models =
     [''gpt-5.3-codex'', ''gpt-5.2-codex'', ''gpt-5.1-codex'', ''gpt-5.1-codex-mini'',
      ''gpt-5.1-codex-max'']"

definition array_from_set :: "'a list \<Rightarrow> 'a list" where
  \<comment> \<open>\<open>Array.from(new Set(xs))\<close>: a set keeps insertion order and ignores a value it has\<close>
  "array_from_set xs = fold (\<lambda>x acc. if x \<in> set acc then acc else acc @ [x]) xs []"

definition fallbackModels :: "string \<Rightarrow> string list" where
  "fallbackModels model = array_from_set (model # priority_models)"

text \<open>
  The surroundings of one \<open>llm\<close> call: \<open>fetch k m\<close> is what \<open>fetch\<close> answers to the
  request number \<open>k\<close> of this call, made for model \<open>m\<close>.
\<close>

type_synonym network = "nat \<Rightarrow> string \<Rightarrow> fetch_result"

text \<open>One attempt, as the loops saw it: the candidate, the attempt index, the outcome.\<close>

type_synonym 'n attempt = "string \<times> nat \<times> (js_error + 'n json)"

record 'n loop_state =
  lastError :: "js_error option"
  calls :: "'n attempt list"

datatype 'n signal = Return "'n json" | Throw js_error | Fallthrough

definition fatal :: "js_error \<Rightarrow> bool" where
  \<comment> \<open>\<open>err.status && err.status !== 400 && err.status !== 429 && ...\<close>\<close>
  "fatal err =
     (case err_status err of
        None \<Rightarrow> False
      | Some s \<Rightarrow> s \<noteq> 0 \<and> s \<noteq> 400 \<and> s \<noteq> 429 \<and> s \<noteq> 500 \<and> s \<noteq> 503)"

function attempts ::
  "'n platform \<Rightarrow> network \<Rightarrow> string \<Rightarrow> nat \<Rightarrow> 'n loop_state \<Rightarrow> 'n signal \<times> 'n loop_state" where
  \<comment> \<open>\<open>for (let attempt = ...; attempt < 3; attempt += 1)\<close>\<close>
  "attempts P fetch candidate attempt st =
     (if attempt < 3 then
        (let r = callCodex P (fetch (length (calls st)) candidate);
             st1 = st\<lparr>calls := calls st @ [(candidate, attempt, r)]\<rparr>
         in case r of
              Inr v \<Rightarrow> (Return v, st1)
            | Inl err \<Rightarrow>
                (let st2 = st1\<lparr>lastError := Some err\<rparr>
                 in if fatal err then (Throw err, st2)
                    else if err_status err = Some 400 then (Fallthrough, st2)
                    else attempts P fetch candidate (attempt + 1) st2))
      else (Fallthrough, st))"
  by pat_completeness auto
termination
  by (relation "measure (\<lambda>(P, fetch, candidate, attempt, st). 3 - attempt)") auto

declare attempts.simps [simp del]

fun candidates ::
  "'n platform \<Rightarrow> network \<Rightarrow> string list \<Rightarrow> 'n loop_state \<Rightarrow> 'n signal \<times> 'n loop_state" where
  \<comment> \<open>\<open>for (const candidate of fallbackModels)\<close>\<close>
  "candidates P fetch [] st = (Fallthrough, st)"
| "candidates P fetch (candidate # rest) st =
     (case attempts P fetch candidate 0 st of
        (Fallthrough, st1) \<Rightarrow> candidates P fetch rest st1
      | (Return v, st1) \<Rightarrow> (Return v, st1)
      | (Throw err, st1) \<Rightarrow> (Throw err, st1))"

definition not_connected :: js_error where
  "not_connected =
     \<lparr>message = ''OpenAI OAuth is not connected. Connect ChatGPT subscription to use Codex models.'',
      err_status = None\<rparr>"

definition llm_codex ::
  "'n platform \<Rightarrow> network \<Rightarrow> OpenAIAuth option \<Rightarrow> string \<Rightarrow> (js_error + 'n json) \<times> 'n attempt list" where
  \<comment> \<open>the branch of \<open>llm\<close> for the Codex models, given what \<open>ensureOpenAIAuth\<close> returned;
      beside the result, the attempts made\<close>
  "llm_codex P fetch auth model =
     (case auth of
        None \<Rightarrow> (Inl not_connected, [])
      | Some a \<Rightarrow>
          (case candidates P fetch (fallbackModels model) \<lparr>lastError = None, calls = []\<rparr> of
             (Return v, st) \<Rightarrow> (Inr v, calls st)
           | (Throw err, st) \<Rightarrow> (Inl err, calls st)
           | (Fallthrough, st) \<Rightarrow>
               (case lastError st of
                  Some err \<Rightarrow> (Inl err, calls st)
                | None \<Rightarrow> (Inl \<lparr>message = ''Codex request failed'', err_status = None\<rparr>, calls st))))"

subsection \<open>The shape of a run\<close>

text \<open>
  What the two loops do next after an attempt, read off the attempt index and the outcome,
  and the lists of attempts that follow it from a position in the chain.  These describe
  the runs of \<^const>\<open>candidates\<close>; the theorems below are derived from them.
\<close>

datatype decision = Stop | Retry | Advance

definition decide :: "nat \<Rightarrow> js_error + 'n json \<Rightarrow> decision" where
  "decide k r =
     (case r of
        Inr v \<Rightarrow> Stop
      | Inl err \<Rightarrow>
          if fatal err then Stop
          else if err_status err = Some 400 then Advance
          else if Suc k < 3 then Retry else Advance)"

fun conforms ::
  "'n platform \<Rightarrow> network \<Rightarrow> nat \<Rightarrow> string list \<Rightarrow> nat \<Rightarrow> 'n attempt list \<Rightarrow> bool" where
  "conforms P fetch n cs k [] = False"
| "conforms P fetch n [] k (x # rest) = False"
| "conforms P fetch n (c # cs) k (x # rest) =
     (x = (c, k, callCodex P (fetch n c)) \<and> k < 3 \<and>
      (case decide k (snd (snd x)) of
         Stop \<Rightarrow> rest = []
       | Retry \<Rightarrow> conforms P fetch (Suc n) (c # cs) (Suc k) rest
       | Advance \<Rightarrow> if cs = [] then rest = [] else conforms P fetch (Suc n) cs 0 rest))"

definition ended :: "'n signal \<Rightarrow> 'n loop_state \<Rightarrow> 'n attempt list \<Rightarrow> bool" where
  \<comment> \<open>how the loops left relates to the last attempt made\<close>
  "ended sig st ext =
     (ext \<noteq> [] \<and>
      (case sig of
         Return v \<Rightarrow> snd (snd (last ext)) = Inr v
       | Throw err \<Rightarrow> snd (snd (last ext)) = Inl err
       | Fallthrough \<Rightarrow> (case snd (snd (last ext)) of Inl err \<Rightarrow> lastError st = Some err | Inr v \<Rightarrow> False)))"

section \<open>A JSON reader for the examples\<close>

text \<open>
  \<open>JSON.parse\<close> is a parameter of the model.  For the concrete inputs below it is this
  reader of the JSON grammar, with two restrictions: numbers are integers without fraction
  or exponent and strings have no \<open>\u\<close> escapes, and a text outside this fragment is
  rejected.  \<open>ToString\<close> is given for the values the reader returns.
\<close>

definition json_space :: "char \<Rightarrow> bool" where
  "json_space c = (c = CHR '' '' \<or> c = CHR 0x09 \<or> c = CHR 0x0A \<or> c = CHR 0x0D)"

definition skip_space :: "string \<Rightarrow> string" where
  "skip_space s = dropWhile json_space s"

definition unescape :: "char \<Rightarrow> char option" where
  "unescape e =
     (if e = CHR 0x22 \<or> e = CHR 0x5C \<or> e = CHR ''/'' then Some e
      else if e = CHR ''b'' then Some (CHR 0x08)
      else if e = CHR ''f'' then Some (CHR 0x0C)
      else if e = CHR ''n'' then Some (CHR 0x0A)
      else if e = CHR ''r'' then Some (CHR 0x0D)
      else if e = CHR ''t'' then Some (CHR 0x09)
      else None)"

fun string_body :: "string \<Rightarrow> string \<Rightarrow> (string \<times> string) option" where
  "string_body acc [] = None"
| "string_body acc [c] = (if c = CHR 0x22 then Some (rev acc, []) else None)"
| "string_body acc (c # d # cs) =
     (if c = CHR 0x22 then Some (rev acc, d # cs)
      else if c = CHR 0x5C then
        (case unescape d of None \<Rightarrow> None | Some ch \<Rightarrow> string_body (ch # acc) cs)
      else if (of_char c :: nat) < 32 then None
      else string_body (c # acc) (d # cs))"

definition is_digit :: "char \<Rightarrow> bool" where
  "is_digit c = (48 \<le> (of_char c :: nat) \<and> (of_char c :: nat) \<le> 57)"

definition digits_value :: "string \<Rightarrow> nat" where
  "digits_value ds = foldl (\<lambda>n c. 10 * n + (of_char c - 48)) 0 ds"

definition natural :: "string \<Rightarrow> (nat \<times> string) option" where
  \<comment> \<open>\<open>0\<close>, or digits that do not start with \<open>0\<close>\<close>
  "natural s =
     (let ds = takeWhile is_digit s
      in if ds = [] \<or> (hd ds = CHR ''0'' \<and> length ds > 1) then None
         else Some (digits_value ds, dropWhile is_digit s))"

definition number :: "string \<Rightarrow> (int json \<times> string) option" where
  "number s =
     (case s of
        [] \<Rightarrow> None
      | c # cs \<Rightarrow>
          if c = CHR ''-'' then map_option (\<lambda>(n, r). (JNum (- int n), r)) (natural cs)
          else map_option (\<lambda>(n, r). (JNum (int n), r)) (natural s))"

definition put_field :: "string \<Rightarrow> 'a \<Rightarrow> (string \<times> 'a) list \<Rightarrow> (string \<times> 'a) list" where
  "put_field k v kvs = filter (\<lambda>kv. fst kv \<noteq> k) kvs @ [(k, v)]"

fun json_value :: "nat \<Rightarrow> string \<Rightarrow> (int json \<times> string) option"
  and json_items :: "nat \<Rightarrow> string \<Rightarrow> int json list \<Rightarrow> (int json \<times> string) option"
  and json_fields :: "nat \<Rightarrow> string \<Rightarrow> (string \<times> int json) list \<Rightarrow> (int json \<times> string) option"
where
  "json_value 0 s = None"
| "json_value (Suc n) s =
     (case skip_space s of
        [] \<Rightarrow> None
      | c # cs \<Rightarrow>
          if c = CHR ''{'' then
            (case skip_space cs of
               [] \<Rightarrow> None
             | d # ds \<Rightarrow> if d = CHR ''}'' then Some (JObj [], ds) else json_fields n (d # ds) [])
          else if c = CHR ''['' then
            (case skip_space cs of
               [] \<Rightarrow> None
             | d # ds \<Rightarrow> if d = CHR '']'' then Some (JArr [], ds) else json_items n (d # ds) [])
          else if c = CHR 0x22 then map_option (\<lambda>(t, r). (JStr t, r)) (string_body [] cs)
          else if prefix ''true'' (c # cs) then Some (JBool True, drop 4 (c # cs))
          else if prefix ''false'' (c # cs) then Some (JBool False, drop 5 (c # cs))
          else if prefix ''null'' (c # cs) then Some (JNull, drop 4 (c # cs))
          else number (c # cs))"
| "json_items 0 s acc = None"
| "json_items (Suc n) s acc =
     (case json_value n s of
        None \<Rightarrow> None
      | Some (v, r) \<Rightarrow>
          (case skip_space r of
             [] \<Rightarrow> None
           | c # cs \<Rightarrow>
               if c = CHR '','' then json_items n cs (acc @ [v])
               else if c = CHR '']'' then Some (JArr (acc @ [v]), cs)
               else None))"
| "json_fields 0 s acc = None"
| "json_fields (Suc n) s acc =
     (case skip_space s of
        [] \<Rightarrow> None
      | c # cs \<Rightarrow>
          if c \<noteq> CHR 0x22 then None
          else
            (case string_body [] cs of
               None \<Rightarrow> None
             | Some (k, r) \<Rightarrow>
                 (case skip_space r of
                    [] \<Rightarrow> None
                  | d # ds \<Rightarrow>
                      if d \<noteq> CHR '':'' then None
                      else
                        (case json_value n ds of
                           None \<Rightarrow> None
                         | Some (v, r') \<Rightarrow>
                             (case skip_space r' of
                                [] \<Rightarrow> None
                              | e # es \<Rightarrow>
                                  if e = CHR '','' then json_fields n es (put_field k v acc)
                                  else if e = CHR ''}'' then Some (JObj (put_field k v acc), es)
                                  else None)))))"

definition json_of_text :: "string \<Rightarrow> int json option" where
  "json_of_text s =
     (case json_value (Suc (length s)) s of
        None \<Rightarrow> None
      | Some (v, r) \<Rightarrow> if skip_space r = [] then Some v else None)"

fun js_to_string :: "int json \<Rightarrow> string" where
  "js_to_string JNull = ''null''"
| "js_to_string (JBool b) = (if b then ''true'' else ''false'')"
| "js_to_string (JNum n) = (if n < 0 then ''-'' @ decimal (nat (- n)) else decimal (nat n))"
| "js_to_string (JStr s) = s"
| "js_to_string (JArr xs) = join '','' (map (\<lambda>x. if x = JNull then [] else js_to_string x) xs)"
| "js_to_string (JObj kvs) = ''[object Object]''"

section \<open>Concrete inputs\<close>

definition demo_tokens :: TokenResponse where
  "demo_tokens = \<lparr>id_token = ''id'', access_token = ''acc2'', refresh_token = ''ref2'', expires_in = Some 60\<rparr>"

definition demo_env :: environment where
  "demo_env =
     \<lparr>exchange = (\<lambda>c r p. if c = ''good'' then Inr demo_tokens else Inl ''Token exchange failed: 400''),
      refreshAccessToken = (\<lambda>r. if r = ''ref'' then Inr demo_tokens else Inl ''Token refresh failed: 401''),
      decode_claims = (\<lambda>s. None),
      now = 1000, now_issued = 1001, write_error = None, listen_error = None\<rparr>"

definition demo_pkce :: PkceCodes where
  "demo_pkce = \<lparr>verifier = ''v'', challenge = ''c''\<rparr>"

definition demo_auth :: OpenAIAuth where
  "demo_auth = \<lparr>access = ''acc'', refresh = ''ref'', expires = 5000, accountId = Some ''acct''\<rparr>"

definition demo_url :: callback_url where
  "demo_url = \<lparr>q_code = Some ''good'', q_state = Some ''forged'', q_error = None, q_error_description = None\<rparr>"

definition demo_session :: world where
  "demo_session = snd (startOpenAIAuthorize demo_env demo_pkce ''s1'' (initial_world None))"

definition stale_auth :: OpenAIAuth where
  "stale_auth = \<lparr>access = ''acc'', refresh = ''ref'', expires = 500, accountId = Some ''acct''\<rparr>"

definition revoked_auth :: OpenAIAuth where
  "revoked_auth = \<lparr>access = ''acc'', refresh = ''gone'', expires = 500, accountId = Some ''acct''\<rparr>"


definition delta_event :: "string \<Rightarrow> 'n json" where
  "delta_event d = JObj [(''type'', JStr ''response.output_text.delta''), (''delta'', JStr d)]"

definition hello_payload :: string where
  \<open>hello_payload = ''{"type":"response.output_text.delta","delta":"Hel"}''\<close>

definition lo_payload :: string where
  \<open>lo_payload = ''{"type":"response.output_text.delta","delta":"lo"}''\<close>

definition hello_body :: string where
  \<open>hello_body =
     ''data: {"type":"response.output_text.delta","delta":"Hel"}\<newline>\<newline>'' @
     ''data: {"type":"response.output_text.delta","delta":"lo"}\<newline>\<newline>'' @
     ''data: [DONE]\<newline>\<newline>''\<close>

definition demo_platform :: "int platform" where
  "demo_platform = \<lparr>json_parse = json_of_text, num_truthy = (\<lambda>n. n \<noteq> 0), to_string = js_to_string\<rparr>"

definition ok_response :: "string list \<Rightarrow> http_response" where
  "ok_response chunks = \<lparr>resp_status = 200, resp_text = Inr [], resp_body = Some (chunks, EndOfStream)\<rparr>"

definition hello_pieces :: "string list" where
  \<comment> \<open>\<open>hello_body\<close> cut inside a line, between the two line feeds of a blank line, and
      inside the marker \<open>data:\<close>\<close>
  \<open>hello_pieces =
     [''data: {"type":"respon'',
      ''se.output_text.delta","delta":"Hel"}\<newline>'',
      ''\<newline>data: {"type":"response.output_text.delta","delta":"lo"}\<newline>\<newline>da'',
      ''ta: [DONE]\<newline>'',
      ''\<newline>'']\<close>



definition error_response :: "nat \<Rightarrow> string \<Rightarrow> http_response" where
  "error_response st text = \<lparr>resp_status = st, resp_text = Inr text, resp_body = None\<rparr>"

definition flaky_net :: network where
  \<comment> \<open>400 to the first request, 500 to the next two, then the example stream\<close>
  "flaky_net k m =
     (if k = 0 then Responded (error_response 400 ''unsupported model'')
      else if k < 3 then Responded (error_response 500 [])
      else Responded (ok_response [hello_body]))"

definition flaky_trace :: "int attempt list" where
  "flaky_trace =
     [(''o3'', 0, Inl \<lparr>message = ''400 unsupported model'', err_status = Some 400\<rparr>),
      (''gpt-5.3-codex'', 0, Inl \<lparr>message = ''500'', err_status = Some 500\<rparr>),
      (''gpt-5.3-codex'', 1, Inl \<lparr>message = ''500'', err_status = Some 500\<rparr>),
      (''gpt-5.3-codex'', 2, Inr (JStr ''Hello''))]"

definition denied_net :: network where
  "denied_net k m = Responded (error_response 401 ''unauthorized'')"

definition denied_error :: js_error where
  "denied_error = \<lparr>message = ''401 unauthorized'', err_status = Some 401\<rparr>"

definition offline_net :: network where
  \<comment> \<open>the first two requests fail before any response, the third is answered\<close>
  "offline_net k m =
     (if k < 2 then Rejected ''fetch failed'' else Responded (ok_response [hello_body]))"

definition offline_error :: js_error where
  "offline_error = \<lparr>message = ''fetch failed'', err_status = None\<rparr>"

definition offline_trace :: "int attempt list" where
  "offline_trace =
     [(''o3'', 0, Inl offline_error), (''o3'', 1, Inl offline_error), (''o3'', 2, Inr (JStr ''Hello''))]"

definition stalled_net :: network where
  \<comment> \<open>the first response is a 200 whose body breaks while it is read, the next is answered\<close>
  "stalled_net k m =
     (if k = 0 then Responded ((ok_response [])\<lparr>resp_body := Some ([hello_body], ReadFailed ''terminated'')\<rparr>)
      else Responded (ok_response [hello_body]))"

definition stalled_error :: js_error where
  "stalled_error = \<lparr>message = ''terminated'', err_status = None\<rparr>"

definition down_net :: network where
  "down_net k m = Rejected ''fetch failed''"

definition three_failures :: "string \<Rightarrow> int attempt list" where
  "three_failures c = [(c, 0, Inl offline_error), (c, 1, Inl offline_error), (c, 2, Inl offline_error)]"

definition down_trace :: "int attempt list" where
  "down_trace =
     three_failures ''o3'' @ three_failures ''gpt-5.3-codex'' @ three_failures ''gpt-5.2-codex'' @
     three_failures ''gpt-5.1-codex'' @ three_failures ''gpt-5.1-codex-mini'' @
     three_failures ''gpt-5.1-codex-max''"

section \<open>Properties of the credential service\<close>

lemma fail_with_simps:
  "oauthState (fail_with m w) = \<lparr>status = Error, error = Some m\<rparr>"
  "pending (fail_with m w) = None"
  "server (fail_with m w) = False"
  "auth_file (fail_with m w) = auth_file w"
  "effects (fail_with m w) = effects w"
  "next_timer (fail_with m w) = next_timer w"
  "timers (fail_with m w) = (case pending w of None \<Rightarrow> timers w | Some p \<Rightarrow> removeAll (timeout p) (timers w))"
  by (auto simp: fail_with_def stopOAuthServer_def clearPending_def split: option.splits)

lemma demo_session_eq:
  "demo_session = \<lparr>server = True, pending = Some \<lparr>pkce = demo_pkce, state = ''s1'', timeout = 0\<rparr>,
      oauthState = \<lparr>status = Pending, error = None\<rparr>, auth_file = None, timers = [0],
      next_timer = 1, effects = []\<rparr>"
  by (simp add: demo_session_def startOpenAIAuthorize_def startOAuthServer_def demo_env_def
      initial_world_def clearPending_def Let_def)

lemma demo_session_start:
  "startOpenAIAuthorize demo_env demo_pkce ''s1'' (initial_world None) = (Inr (''c'', ''s1''), demo_session)"
  by (simp add: demo_session_eq)
     (simp add: startOpenAIAuthorize_def startOAuthServer_def demo_env_def
      initial_world_def clearPending_def Let_def demo_pkce_def)

subsection \<open>The callback and the state token\<close>

text \<open>
  C1.  A redirect that carries no \<open>error\<close> and carries a \<open>code\<close>, while no session is
  pending or the redirect's \<open>state\<close> is not the pending session's: the handler records the
  status \<open>error\<close> with the message that flags a potential CSRF attack, clears the session,
  stops the listener, and makes no call to the issuer and no write to the credential file
  (the log of outside calls is as it was).  The outcome does not depend on what the issuer
  would have answered.
\<close>

theorem callback_state_mismatch:
  assumes "\<not> truthy (q_error url)" and "truthy (q_code url)"
    and "pending w = None \<or> (\<exists>p. pending w = Some p \<and> q_state url \<noteq> Some (state p))"
  shows "oauthState (snd (handleCallback env url w)) =
           \<lparr>status = Error, error = Some ''Invalid state - potential CSRF attack''\<rparr>
         \<and> effects (snd (handleCallback env url w)) = effects w
         \<and> auth_file (snd (handleCallback env url w)) = auth_file w
         \<and> pending (snd (handleCallback env url w)) = None
         \<and> \<not> server (snd (handleCallback env url w))
         \<and> handleCallback env url w = handleCallback env' url w"
  using assms
  by (auto simp: handleCallback_def Let_def fail_with_simps split: option.splits)

theorem callback_state_mismatch_witness:
  "oauthState (snd (handleCallback demo_env demo_url demo_session)) =
     \<lparr>status = Error, error = Some ''Invalid state - potential CSRF attack''\<rparr>
   \<and> effects (snd (handleCallback demo_env demo_url demo_session)) = []
   \<and> pending (snd (handleCallback demo_env demo_url demo_session)) = None"
  using callback_state_mismatch [of demo_url demo_session demo_env demo_env]
  by (simp add: demo_url_def demo_session_eq truthy_def)

subsection \<open>Cancelling\<close>

text \<open>
  C8.  After a \<open>Start\<close> that returned, an immediate \<open>Cancel\<close> leaves the status \<open>error\<close>,
  no pending session, the new session's timer disarmed, the listener stopped, and the
  credential file and the log of outside calls as they were before the \<open>Start\<close>.  The
  message recorded is \<open>Login cancelled\<close>, with a capital L.
\<close>

theorem start_then_cancel:
  assumes "startOpenAIAuthorize env pk st w = (Inr r, w1)"
  shows "status (oauthState w1) = Pending
         \<and> (\<exists>t. pending w1 = Some \<lparr>pkce = pk, state = st, timeout = t\<rparr> \<and> t \<in> set (timers w1)
                \<and> t \<notin> set (timers (snd (handleCancel w1))))
         \<and> server w1
         \<and> oauthState (snd (handleCancel w1)) = \<lparr>status = Error, error = Some ''Login cancelled''\<rparr>
         \<and> pending (snd (handleCancel w1)) = None
         \<and> \<not> server (snd (handleCancel w1))
         \<and> auth_file (snd (handleCancel w1)) = auth_file w
         \<and> effects (snd (handleCancel w1)) = effects w"
  using assms
  by (auto simp: startOpenAIAuthorize_def startOAuthServer_def handleCancel_def fail_with_simps
      clearPending_def Let_def split: option.splits if_splits prod.splits)

theorem start_then_cancel_witness:
  "oauthState (snd (handleCancel demo_session)) = \<lparr>status = Error, error = Some ''Login cancelled''\<rparr>
   \<and> pending (snd (handleCancel demo_session)) = None
   \<and> \<not> server (snd (handleCancel demo_session))
   \<and> auth_file (snd (handleCancel demo_session)) = None
   \<and> effects (snd (handleCancel demo_session)) = []"
  using start_then_cancel [OF demo_session_start]
  by (simp add: initial_world_def)

text \<open>
  The message is not the lower-case \<open>login cancelled\<close>.
\<close>

theorem cancel_message_counterexample:
  "error (oauthState (snd (handleCancel demo_session))) \<noteq> Some ''login cancelled''"
  by (simp add: handleCancel_def fail_with_simps)

subsection \<open>The credential accessor\<close>

text \<open>
  C5.  \<open>ensureOpenAIAuth\<close>: a stored credential that is present, has a non-empty access
  value and has not expired is returned as it is, and nothing changes.  When the refresh
  exchange succeeds and the write succeeds, the file holds exactly the record returned, every
  field of which is built from the new tokens (the account identifier falls back to the
  stored one), and it was written by one write.  When the refresh exchange fails, its error
  is the result and the credential file is as it was.
\<close>

theorem ensure_auth:
  "(readAuth w = Some a \<and> access a \<noteq> [] \<and> now env \<le> expires a
      \<longrightarrow> ensureOpenAIAuth env w = (Inr (Some a), w))
   \<and> (readAuth w = Some a \<and> expires a < now env \<and> refreshAccessToken env (refresh a) = Inr tokens
        \<and> write_error env = None
      \<longrightarrow> (\<exists>u. fst (ensureOpenAIAuth env w) = Inr (Some u)
             \<and> auth_file (snd (ensureOpenAIAuth env w)) = Some u
             \<and> access u = access_token tokens
             \<and> refresh u = refresh_token tokens
             \<and> expires u = now_issued env + (case expires_in tokens of None \<Rightarrow> 3600 | Some n \<Rightarrow> n) * 1000
             \<and> accountId u = (let n = js_or (extractAccountId env tokens) (accountId a)
                               in if truthy n then n else None)
             \<and> effects (snd (ensureOpenAIAuth env w)) = effects w @ [TokenRefresh (refresh a), WriteAuth u]))
   \<and> (readAuth w = Some a \<and> expires a < now env \<and> refreshAccessToken env (refresh a) = Inl e
      \<longrightarrow> fst (ensureOpenAIAuth env w) = Inl e
          \<and> auth_file (snd (ensureOpenAIAuth env w)) = auth_file w
          \<and> effects (snd (ensureOpenAIAuth env w)) = effects w @ [TokenRefresh (refresh a)])"
  by (auto simp: ensureOpenAIAuth_def writeAuth_def new_auth_def Let_def readAuth_def
      split: option.splits sum.splits if_splits)

theorem ensure_auth_witness:
  "ensureOpenAIAuth demo_env (initial_world (Some demo_auth)) =
     (Inr (Some demo_auth), initial_world (Some demo_auth))
   \<and> (\<exists>u. fst (ensureOpenAIAuth demo_env (initial_world (Some stale_auth))) = Inr (Some u)
          \<and> auth_file (snd (ensureOpenAIAuth demo_env (initial_world (Some stale_auth)))) = Some u
          \<and> access u = ''acc2'' \<and> refresh u = ''ref2'' \<and> expires u = 61001
          \<and> accountId u = Some ''acct'')
   \<and> fst (ensureOpenAIAuth demo_env (initial_world (Some revoked_auth))) = Inl ''Token refresh failed: 401''
   \<and> auth_file (snd (ensureOpenAIAuth demo_env (initial_world (Some revoked_auth)))) = Some revoked_auth"
proof -
  have fresh: "readAuth (initial_world (Some demo_auth)) = Some demo_auth \<and> access demo_auth \<noteq> []
      \<and> now demo_env \<le> expires demo_auth"
    by (simp add: readAuth_def initial_world_def demo_auth_def demo_env_def)
  have stale: "readAuth (initial_world (Some stale_auth)) = Some stale_auth
      \<and> expires stale_auth < now demo_env
      \<and> refreshAccessToken demo_env (refresh stale_auth) = Inr demo_tokens
      \<and> write_error demo_env = None"
    by (simp add: readAuth_def initial_world_def stale_auth_def demo_env_def)
  have gone: "readAuth (initial_world (Some revoked_auth)) = Some revoked_auth
      \<and> expires revoked_auth < now demo_env
      \<and> refreshAccessToken demo_env (refresh revoked_auth) = Inl ''Token refresh failed: 401''"
    by (simp add: readAuth_def initial_world_def revoked_auth_def demo_env_def)
  have acct: "extractAccountId demo_env demo_tokens = None"
    by (simp add: extractAccountId_def parseJwtClaims_def demo_env_def Let_def truthy_def)
  note c1 = ensure_auth [THEN conjunct1, THEN mp, OF fresh]
  note c2 = ensure_auth [THEN conjunct2, THEN conjunct1, THEN mp, OF stale]
  note c3 = ensure_auth [THEN conjunct2, THEN conjunct2, THEN mp, OF gone]
  have vals: "access_token demo_tokens = ''acc2''" "refresh_token demo_tokens = ''ref2''"
      "expires_in demo_tokens = Some 60" "now_issued demo_env = 1001"
      "accountId stale_auth = Some ''acct''"
    by (simp_all add: demo_tokens_def demo_env_def stale_auth_def)
  from c2 have c2': "\<exists>u. fst (ensureOpenAIAuth demo_env (initial_world (Some stale_auth))) = Inr (Some u)
          \<and> auth_file (snd (ensureOpenAIAuth demo_env (initial_world (Some stale_auth)))) = Some u
          \<and> access u = ''acc2'' \<and> refresh u = ''ref2'' \<and> expires u = 61001
          \<and> accountId u = Some ''acct''"
    by (auto simp: acct js_or_def truthy_def vals)
  from c3 have c3': "fst (ensureOpenAIAuth demo_env (initial_world (Some revoked_auth))) = Inl ''Token refresh failed: 401''
     \<and> auth_file (snd (ensureOpenAIAuth demo_env (initial_world (Some revoked_auth)))) = Some revoked_auth"
    by (simp add: initial_world_def)
  from c1 c2' c3' show ?thesis by blast
qed

subsection \<open>The status query\<close>

text \<open>
  C9.  \<open>getOpenAIAuthStatus\<close> reports \<open>success\<close> when a credential is stored and the
  internal status is \<open>idle\<close>, and the internal status otherwise; \<open>connected\<close> holds exactly
  when the file holds a credential record (type \<open>oauth\<close>, with access, refresh and expiry
  values); the account identifier is the stored credential's.
\<close>

theorem status_query_coerces:
  "report_status (getOpenAIAuthStatus w) =
     (if readAuth w \<noteq> None \<and> status (oauthState w) = Idle then Success else status (oauthState w))
   \<and> report_error (getOpenAIAuthStatus w) = error (oauthState w)
   \<and> connected (getOpenAIAuthStatus w) =
       (\<exists>a. auth_file w = Some a \<and> access a \<noteq> [] \<and> refresh a \<noteq> [] \<and> expires a \<noteq> 0)
   \<and> report_accountId (getOpenAIAuthStatus w) = (case readAuth w of None \<Rightarrow> None | Some a \<Rightarrow> accountId a)
   \<and> (connected (getOpenAIAuthStatus w) \<longrightarrow> readAuth w = auth_file w)"
  by (auto simp: getOpenAIAuthStatus_def readAuth_def Let_def split: option.splits)

theorem status_query_coerces_witness:
  "report_status (getOpenAIAuthStatus (initial_world (Some demo_auth))) = Success
   \<and> connected (getOpenAIAuthStatus (initial_world (Some demo_auth)))
   \<and> report_accountId (getOpenAIAuthStatus (initial_world (Some demo_auth))) = Some ''acct''
   \<and> readAuth (initial_world (Some demo_auth)) = Some demo_auth"
  using status_query_coerces [of "initial_world (Some demo_auth)"]
  by (simp add: initial_world_def demo_auth_def readAuth_def)

subsection \<open>One session, one timer\<close>

































section \<open>Properties of the gateway\<close>

subsection \<open>The fallback chain\<close>

lemma fold_insert_distinct:
  "distinct xs \<Longrightarrow>
   fold (\<lambda>x acc. if x \<in> set acc then acc else acc @ [x]) xs acc = acc @ filter (\<lambda>x. x \<notin> set acc) xs"
proof (induction xs arbitrary: acc)
  case Nil
  then show ?case by simp
next
  case (Cons x xs)
  then have "filter (\<lambda>y. y \<notin> set (acc @ [x])) xs = filter (\<lambda>y. y \<notin> set acc) xs"
    by (auto intro: filter_cong)
  with Cons show ?case by auto
qed

lemma distinct_priority_models: "distinct priority_models"
  by (simp add: priority_models_def)

lemma fallbackModels_eq: "fallbackModels model = model # filter (\<lambda>x. x \<noteq> model) priority_models"
  using fold_insert_distinct [OF distinct_priority_models, of "[model]"]
  by (simp add: fallbackModels_def array_from_set_def)

lemma filter_neq_remove1: "distinct xs \<Longrightarrow> filter (\<lambda>x. x \<noteq> m) xs = remove1 m xs"
  by (induction xs) (auto simp: filter_id_conv)

text \<open>
  C6.  The chain built for a request is the requested model followed by the priority list
  without that model: the requested model is first, no model occurs twice, and the models
  are the requested one and those of the priority list.  For a model outside the priority
  list the chain is the model before the whole list; for a model of the list it is the model
  before the list with that one entry removed.
\<close>

theorem fallback_chain:
  "fallbackModels model = model # filter (\<lambda>x. x \<noteq> model) priority_models
   \<and> hd (fallbackModels model) = model
   \<and> distinct (fallbackModels model)
   \<and> set (fallbackModels model) = insert model (set priority_models)
   \<and> (model \<notin> set priority_models \<longrightarrow> fallbackModels model = model # priority_models)
   \<and> (model \<in> set priority_models \<longrightarrow> fallbackModels model = model # remove1 model priority_models)"
proof -
  let ?rest = "filter (\<lambda>x. x \<noteq> model) priority_models"
  have c1: "fallbackModels model = model # ?rest"
    by (rule fallbackModels_eq)
  have c2: "hd (fallbackModels model) = model"
    by (simp add: c1)
  have c3: "distinct (fallbackModels model)"
    using distinct_priority_models by (simp add: c1)
  have c4: "set (fallbackModels model) = insert model (set priority_models)"
    by (auto simp: c1)
  have c5: "model \<notin> set priority_models \<longrightarrow> fallbackModels model = model # priority_models"
    by (auto simp: c1 filter_id_conv)
  have c6: "model \<in> set priority_models \<longrightarrow> fallbackModels model = model # remove1 model priority_models"
    by (simp add: c1 filter_neq_remove1 [OF distinct_priority_models])
  from c1 c2 c3 c4 c5 c6 show ?thesis by blast
qed

theorem fallback_chain_witness:
  "fallbackModels ''gpt-5.1-codex'' =
     [''gpt-5.1-codex'', ''gpt-5.3-codex'', ''gpt-5.2-codex'', ''gpt-5.1-codex-mini'', ''gpt-5.1-codex-max'']
   \<and> fallbackModels ''o3'' =
     [''o3'', ''gpt-5.3-codex'', ''gpt-5.2-codex'', ''gpt-5.1-codex'', ''gpt-5.1-codex-mini'', ''gpt-5.1-codex-max'']"
proof -
  have a: "''gpt-5.1-codex'' \<in> set priority_models" by (simp add: priority_models_def)
  have b: "''o3'' \<notin> set priority_models" by (simp add: priority_models_def)
  from fallback_chain [of "''gpt-5.1-codex''", THEN conjunct1]
  have c: "fallbackModels ''gpt-5.1-codex'' =
     [''gpt-5.1-codex'', ''gpt-5.3-codex'', ''gpt-5.2-codex'', ''gpt-5.1-codex-mini'', ''gpt-5.1-codex-max'']"
    by (simp add: priority_models_def)
  from fallback_chain [of "''o3''"] b
  have d: "fallbackModels ''o3'' = ''o3'' # priority_models" by blast
  from c d show ?thesis by (simp add: priority_models_def)
qed

subsection \<open>Blocks and chunks\<close>

lemma js_split_not_Nil: "js_split sep s \<noteq> []"
  by (induction sep s rule: js_split.induct) (auto split: list.splits)

lemma js_split_short: "length s < length sep \<Longrightarrow> js_split sep s = [s]"
proof (induction sep s rule: js_split.induct)
  case (1 sep)
  then show ?case by simp
next
  case (2 sep c cs)
  have np: "\<not> prefix sep (c # cs)"
    using "2.prems" by (auto dest: prefix_length_le)
  with 2 show ?case by simp
qed

lemma js_split_single: "js_split sep s = [p] \<Longrightarrow> p = s"
proof (induction sep s arbitrary: p rule: js_split.induct)
  case (1 sep)
  then show ?case by simp
next
  case (2 sep c cs)
  show ?case
  proof (cases "sep \<noteq> [] \<and> prefix sep (c # cs)")
    case True
    with "2.prems" show ?thesis by (simp add: js_split_not_Nil)
  next
    case False
    with "2.prems" obtain q where q: "js_split sep cs = [q]" "p = c # q"
      by (auto split: list.splits simp: js_split_not_Nil)
    from "2.IH"(2) [OF False q(1)] q(2) show ?thesis by simp
  qed
qed

lemma js_split_append:
  "sep \<noteq> [] \<Longrightarrow>
   js_split sep (a @ c) = butlast (js_split sep a) @ js_split sep (last (js_split sep a) @ c)"
proof (induction sep a rule: js_split.induct)
  case (1 sep)
  then show ?case by simp
next
  case (2 sep x xs)
  show ?case
  proof (cases "prefix sep (x # xs)")
    case True
    then have pc: "prefix sep ((x # xs) @ c)" by (metis prefix_prefix)
    have le: "length sep \<le> length (x # xs)" using True by (rule prefix_length_le)
    have dr: "drop (length sep) (x # xs @ c) = drop (length sep) (x # xs) @ c"
      using le drop_append [of "length sep" "x # xs" c] by simp
    have "js_split sep ((x # xs) @ c) = [] # js_split sep (drop (length sep) (x # xs) @ c)"
      using pc "2.prems" by (simp add: dr del: drop_Suc_Cons)
    also have "\<dots> = [] # butlast (js_split sep (drop (length sep) (x # xs)))
        @ js_split sep (last (js_split sep (drop (length sep) (x # xs))) @ c)"
      using "2.IH"(1) True "2.prems" by simp
    finally show ?thesis
      using True "2.prems" by (simp add: js_split_not_Nil)
  next
    case False
    note np = this
    show ?thesis
    proof (cases "prefix sep ((x # xs) @ c)")
      case True
      with np have "length (x # xs) < length sep"
        by (metis append_eq_append_conv_if linorder_not_less prefix_def append_take_drop_id prefixI)
      then have "js_split sep (x # xs) = [x # xs]" by (rule js_split_short)
      then show ?thesis by simp
    next
      case False
      obtain p ps where S: "js_split sep xs = p # ps"
        using js_split_not_Nil [of sep xs] by (cases "js_split sep xs") auto
      have IH: "js_split sep (xs @ c) = butlast (p # ps) @ js_split sep (last (p # ps) @ c)"
        using "2.IH"(2) np "2.prems" S by simp
      show ?thesis
      proof (cases ps)
        case Nil
        with S have "p = xs" by (simp add: js_split_single)
        with Nil S np show ?thesis by simp
      next
        case (Cons q qs)
        with S np False IH show ?thesis by simp
      qed
    qed
  qed
qed

lemma js_split_last: "js_split sep (last (js_split sep s)) = [last (js_split sep s)]"
proof (induction sep s rule: js_split.induct)
  case (1 sep)
  then show ?case by simp
next
  case (2 sep c cs)
  show ?case
  proof (cases "sep \<noteq> [] \<and> prefix sep (c # cs)")
    case True
    with 2 show ?thesis by (simp add: js_split_not_Nil)
  next
    case False
    obtain p ps where S: "js_split sep cs = p # ps"
      using js_split_not_Nil [of sep cs] by (cases "js_split sep cs") auto
    have eq: "js_split sep (c # cs) = (c # p) # ps"
      using False S by auto
    show ?thesis
    proof (cases ps)
      case Nil
      with S have "p = cs" by (simp add: js_split_single)
      with Nil eq show ?thesis by simp
    next
      case (Cons q qs)
      with S eq "2.IH"(2) [OF False] show ?thesis by simp
    qed
  qed
qed

lemma read_loop_fold:
  "js_split ''\<newline>\<newline>'' buffer = [buffer] \<Longrightarrow>
   read_loop P buffer out chunks =
     foldl (process_part P) out (butlast (js_split ''\<newline>\<newline>'' (buffer @ concat chunks)))"
proof (induction chunks arbitrary: buffer out)
  case Nil
  then show ?case by simp
next
  case (Cons chunk rest)
  let ?parts = "js_split ''\<newline>\<newline>'' (buffer @ chunk)"
  have ne: "?parts \<noteq> []" by (rule js_split_not_Nil)
  have inv: "js_split ''\<newline>\<newline>'' (last ?parts) = [last ?parts]" by (rule js_split_last)
  have sp: "js_split ''\<newline>\<newline>'' ((buffer @ chunk) @ concat rest) =
      butlast ?parts @ js_split ''\<newline>\<newline>'' (last ?parts @ concat rest)"
    by (rule js_split_append) simp
  have "read_loop P buffer out (chunk # rest) =
      read_loop P (last ?parts) (foldl (process_part P) out (butlast ?parts)) rest"
    using ne by (simp add: pop_or_empty_def Let_def)
  also have "\<dots> = foldl (process_part P) (foldl (process_part P) out (butlast ?parts))
      (butlast (js_split ''\<newline>\<newline>'' (last ?parts @ concat rest)))"
    by (rule Cons.IH [OF inv])
  also have "\<dots> = foldl (process_part P) out
      (butlast (butlast ?parts @ js_split ''\<newline>\<newline>'' (last ?parts @ concat rest)))"
    by (simp add: butlast_append js_split_not_Nil)
  finally show ?case by (simp only: sp [symmetric] concat.simps append_assoc)
qed

lemma read_loop_body:
  "read_loop P [] out chunks =
     foldl (process_part P) out (butlast (js_split ''\<newline>\<newline>'' (concat chunks)))"
  using read_loop_fold [of "[]" P out chunks] by simp


lemma as_string_JStr: "as_string (Some (JStr s)) = Some s"
  by (simp add: as_string_def)

lemma truthy_JStr: "truthy_value P (Some (JStr s)) = (s \<noteq> [])"
  by (simp add: truthy_value_def)

lemma on_event_delta:
  assumes "get_prop (Some ev) ''type'' = Some (JStr ''response.output_text.delta'')"
    and "get_prop (Some ev) ''delta'' = Some (JStr d)"
    and "js_string P out @ d \<noteq> []"
  shows "on_event P ev out = JStr (js_string P out @ d)"
  using assms
  by (simp add: on_event_def Let_def as_string_JStr truthy_JStr split: option.splits)





lemma hello_parts:
  "butlast (js_split ''\<newline>\<newline>'' hello_body) =
     [''data: '' @ hello_payload, ''data: '' @ lo_payload, ''data: [DONE]'']"
  by (simp add: hello_body_def hello_payload_def lo_payload_def)

lemma hello_data:
  "block_data (''data: '' @ hello_payload) = Some hello_payload"
  "block_data (''data: '' @ lo_payload) = Some lo_payload"
  "block_data ''data: [DONE]'' = Some ''[DONE]''"
  by (simp_all add: block_data_def hello_payload_def lo_payload_def startsWith_def trim_def
      is_space_def Let_def)

lemma delta_event_props:
  "get_prop (Some (delta_event d)) ''type'' = Some (JStr ''response.output_text.delta'')"
  "get_prop (Some (delta_event d)) ''delta'' = Some (JStr d)"
  by (simp_all add: delta_event_def get_prop_def)

lemma hello_output:
  assumes "json_parse P hello_payload = Some (delta_event ''Hel'')"
    and "json_parse P lo_payload = Some (delta_event ''lo'')"
  shows "foldl (process_part P) (JStr []) (butlast (js_split ''\<newline>\<newline>'' hello_body)) = JStr ''Hello''"
proof -
  have ne: "hello_payload \<noteq> [] \<and> hello_payload \<noteq> ''[DONE]'' \<and> lo_payload \<noteq> [] \<and> lo_payload \<noteq> ''[DONE]''"
    by (simp add: hello_payload_def lo_payload_def)
  have 1: "process_part P (JStr []) (''data: '' @ hello_payload) = JStr ''Hel''"
    using ne assms(1) on_event_delta [OF delta_event_props, of P "JStr []" "''Hel''"]
    by (simp only: process_part_def hello_data) (simp add: js_string_def)
  have 2: "process_part P (JStr ''Hel'') (''data: '' @ lo_payload) = JStr ''Hello''"
    using ne assms(2) on_event_delta [OF delta_event_props, of P "JStr ''Hel''" "''lo''"]
    by (simp only: process_part_def hello_data) (simp add: js_string_def)
  have 3: "process_part P (JStr ''Hello'') ''data: [DONE]'' = JStr ''Hello''"
    by (simp add: process_part_def hello_data)
  show ?thesis
    by (simp only: hello_parts foldl.simps 1 2 3)
qed


lemma demo_parse_hello:
  "json_parse demo_platform hello_payload = Some (delta_event ''Hel'')"
  "json_parse demo_platform lo_payload = Some (delta_event ''lo'')"
  by (simp_all add: demo_platform_def json_of_text_def hello_payload_def lo_payload_def
      delta_event_def skip_space_def json_space_def put_field_def)

lemma hello_pieces_concat: "concat hello_pieces = hello_body"
  by (simp add: hello_pieces_def hello_body_def)

lemma ok_ok_response: "ok (ok_response chunks)"
  by (simp add: ok_def ok_response_def)




text \<open>
  C4.  However the body is cut into chunks (inside a line, inside a blank line, anywhere),
  the read loop accumulates what it accumulates when the whole body arrives as one chunk;
  so does \<open>callCodex\<close> on a successful response.
\<close>

theorem chunking_invariant:
  "read_loop P [] (JStr []) chunks = read_loop P [] (JStr []) [concat chunks]
   \<and> (ok response \<longrightarrow>
        callCodex P (Responded (response\<lparr>resp_body := Some (chunks, EndOfStream)\<rparr>)) =
        callCodex P (Responded (response\<lparr>resp_body := Some ([concat chunks], EndOfStream)\<rparr>)))"
proof -
  have a: "read_loop P [] (JStr []) chunks = read_loop P [] (JStr []) [concat chunks]"
    by (simp only: read_loop_body) simp
  have b: "ok (response\<lparr>resp_body := b\<rparr>) = ok response" for b
    by (simp add: ok_def)
  from a show ?thesis by (simp add: b)
qed

theorem chunking_invariant_witness:
  "callCodex demo_platform (Responded (ok_response hello_pieces)) =
     callCodex demo_platform (Responded (ok_response [hello_body]))
   \<and> callCodex demo_platform (Responded (ok_response [hello_body])) = Inr (JStr ''Hello'')"
proof -
  from chunking_invariant [of demo_platform hello_pieces "ok_response []", THEN conjunct2, THEN mp,
      OF ok_ok_response]
  have a: "callCodex demo_platform (Responded (ok_response hello_pieces)) =
      callCodex demo_platform (Responded (ok_response [hello_body]))"
    by (simp add: ok_response_def hello_pieces_concat)
  have b: "callCodex demo_platform (Responded (ok_response [hello_body])) = Inr (JStr ''Hello'')"
    using hello_output [OF demo_parse_hello]
    by (simp add: ok_response_def ok_def read_loop_body)
  from a b show ?thesis by simp
qed

subsection \<open>Accumulating the output\<close>



subsection \<open>Retries and fallback\<close>

lemma ended_Cons: "ended sig st ext \<Longrightarrow> ended sig st (x # ext)"
  by (auto simp: ended_def split: signal.splits sum.splits)

lemma attempts_conforms:
  assumes tail: "\<And>st1 sig st'. cs \<noteq> [] \<Longrightarrow> candidates P fetch cs st1 = (sig, st') \<Longrightarrow>
      \<exists>ext. calls st' = calls st1 @ ext \<and> conforms P fetch (length (calls st1)) cs 0 ext \<and> ended sig st' ext"
  shows "k < 3 \<Longrightarrow>
     (case attempts P fetch c k st of
        (Fallthrough, st1) \<Rightarrow> candidates P fetch cs st1
      | (Return v, st1) \<Rightarrow> (Return v, st1)
      | (Throw err, st1) \<Rightarrow> (Throw err, st1)) = (sig, st') \<Longrightarrow>
     \<exists>ext. calls st' = calls st @ ext \<and> conforms P fetch (length (calls st)) (c # cs) k ext \<and> ended sig st' ext"
proof (induction "3 - k" arbitrary: k st)
  case 0
  then show ?case by simp
next
  case (Suc m)
  let ?r = "callCodex P (fetch (length (calls st)) c)"
  let ?x = "(c, k, ?r)"
  let ?st1 = "st\<lparr>calls := calls st @ [?x]\<rparr>"
  have k3: "k < 3" by fact
  \<comment> \<open>leaving the inner loop towards the next candidate\<close>
  have advance: "\<exists>ext. calls st' = calls st @ ext \<and> conforms P fetch (length (calls st)) (c # cs) k ext
      \<and> ended sig st' ext"
    if r: "?r = Inl e" and d: "decide k ?r = Advance"
      and run: "candidates P fetch cs (?st1\<lparr>lastError := Some e\<rparr>) = (sig, st')" for e
  proof (cases cs)
    case Nil
    with run have "sig = Fallthrough" "st' = ?st1\<lparr>lastError := Some e\<rparr>" by simp_all
    then show ?thesis
      using k3 d r Nil by (auto simp: ended_def)
  next
    case (Cons c' cs')
    then have "cs \<noteq> []" by simp
    from tail [OF this run] obtain ext where
      ext: "calls st' = calls (?st1\<lparr>lastError := Some e\<rparr>) @ ext"
        "conforms P fetch (length (calls (?st1\<lparr>lastError := Some e\<rparr>))) cs 0 ext"
        "ended sig st' ext"
      by blast
    have "calls st' = calls st @ ?x # ext" using ext(1) by simp
    moreover have "conforms P fetch (length (calls st)) (c # cs) k (?x # ext)"
      using ext(2) k3 d Cons by simp
    moreover have "ended sig st' (?x # ext)" using ext(3) by (rule ended_Cons)
    ultimately show ?thesis by blast
  qed
  show ?case
  proof (cases ?r)
    case (Inr v)
    then have "attempts P fetch c k st = (Return v, ?st1)"
      using k3 by (simp add: attempts.simps [of P fetch c k st] Let_def)
    with Suc.prems(2) have "sig = Return v" "st' = ?st1" by simp_all
    then show ?thesis
      using k3 Inr by (auto simp: ended_def decide_def)
  next
    case (Inl e)
    let ?st2 = "?st1\<lparr>lastError := Some e\<rparr>"
    show ?thesis
    proof (cases "fatal e")
      case True
      then have "attempts P fetch c k st = (Throw e, ?st2)"
        using k3 Inl by (simp add: attempts.simps [of P fetch c k st] Let_def)
      with Suc.prems(2) have "sig = Throw e" "st' = ?st2" by simp_all
      then show ?thesis
        using k3 Inl True by (auto simp: ended_def decide_def)
    next
      case False
      note nf = this
      show ?thesis
      proof (cases "err_status e = Some 400")
        case True
        then have "attempts P fetch c k st = (Fallthrough, ?st2)"
          using k3 Inl nf by (simp add: attempts.simps [of P fetch c k st] Let_def)
        with Suc.prems(2) have run: "candidates P fetch cs ?st2 = (sig, st')" by simp
        have "decide k ?r = Advance" using Inl nf True by (simp add: decide_def)
        from advance [OF Inl this run] show ?thesis .
      next
        case False
        have step: "attempts P fetch c k st = attempts P fetch c (Suc k) ?st2"
          using k3 Inl nf False by (simp add: attempts.simps [of P fetch c k st] Let_def)
        show ?thesis
        proof (cases "Suc k < 3")
          case True
          have m: "m = 3 - Suc k" using Suc.hyps(2) by simp
          from Suc.prems(2) step
          have "(case attempts P fetch c (Suc k) ?st2 of
                   (Fallthrough, st1) \<Rightarrow> candidates P fetch cs st1
                 | (Return v, st1) \<Rightarrow> (Return v, st1)
                 | (Throw err, st1) \<Rightarrow> (Throw err, st1)) = (sig, st')"
            by simp
          from Suc.hyps(1) [OF m True this] obtain ext where
            ext: "calls st' = calls ?st2 @ ext"
              "conforms P fetch (length (calls ?st2)) (c # cs) (Suc k) ext"
              "ended sig st' ext"
            by blast
          have "calls st' = calls st @ ?x # ext" using ext(1) by simp
          moreover have "conforms P fetch (length (calls st)) (c # cs) k (?x # ext)"
            using ext(2) k3 Inl nf False True by (simp add: decide_def)
          moreover have "ended sig st' (?x # ext)" using ext(3) by (rule ended_Cons)
          ultimately show ?thesis by blast
        next
          case False
          then have "attempts P fetch c (Suc k) ?st2 = (Fallthrough, ?st2)"
            by (simp add: attempts.simps [of P fetch c "Suc k" ?st2])
          with Suc.prems(2) step have run: "candidates P fetch cs ?st2 = (sig, st')" by simp
          have "decide k ?r = Advance" using Inl nf False by (simp add: decide_def)
          from advance [OF Inl this run] show ?thesis .
        qed
      qed
    qed
  qed
qed

lemma candidates_conforms:
  "cs \<noteq> [] \<Longrightarrow> candidates P fetch cs st = (sig, st') \<Longrightarrow>
   \<exists>ext. calls st' = calls st @ ext \<and> conforms P fetch (length (calls st)) cs 0 ext \<and> ended sig st' ext"
proof (induction cs arbitrary: st sig st')
  case Nil
  then show ?case by simp
next
  case (Cons c cs)
  have run: "(case attempts P fetch c 0 st of
        (Fallthrough, st1) \<Rightarrow> candidates P fetch cs st1
      | (Return v, st1) \<Rightarrow> (Return v, st1)
      | (Throw err, st1) \<Rightarrow> (Throw err, st1)) = (sig, st')"
    using Cons.prems(2) by (simp split: prod.splits signal.splits)
  show ?case
    by (rule attempts_conforms [OF Cons.IH _ run]) simp_all
qed

lemma conforms_head:
  "conforms P fetch n cs k tr \<Longrightarrow>
   tr \<noteq> [] \<and> cs \<noteq> [] \<and> k < 3 \<and> hd tr = (hd cs, k, callCodex P (fetch n (hd cs)))"
  by (cases tr; cases cs) simp_all

lemma conforms_candidates: "conforms P fetch n cs k tr \<Longrightarrow> fst ` set tr \<subseteq> set cs"
proof (induction P fetch n cs k tr rule: conforms.induct)
  case (3 P fetch n c cs k x rest)
  show ?case
  proof (cases "decide k (snd (snd x))")
    case Stop
    with "3.prems" show ?thesis by simp
  next
    case Retry
    with "3.prems" "3.IH"(1) show ?thesis by auto
  next
    case Advance
    with "3.prems" "3.IH"(2) show ?thesis by (cases "cs = []") auto
  qed
qed simp_all

lemma conforms_suffix:
  "conforms P fetch n cs k (pre @ x # post) \<Longrightarrow>
   \<exists>cs' k'. suffix cs' cs \<and> conforms P fetch (n + length pre) cs' k' (x # post)"
proof (induction pre arbitrary: n cs k)
  case Nil
  then show ?case by auto
next
  case (Cons y pre)
  then obtain c cs0 where cs: "cs = c # cs0"
    by (cases cs) auto
  let ?rest = "pre @ x # post"
  from Cons.prems cs
  have "conforms P fetch (Suc n) (c # cs0) (Suc k) ?rest \<or> conforms P fetch (Suc n) cs0 0 ?rest"
    by (cases "decide k (snd (snd y))") (auto split: if_splits)
  then show ?case
  proof
    assume "conforms P fetch (Suc n) (c # cs0) (Suc k) ?rest"
    from Cons.IH [OF this] cs show ?thesis by auto
  next
    assume "conforms P fetch (Suc n) cs0 0 ?rest"
    from Cons.IH [OF this] cs show ?thesis by (auto intro: suffix_ConsI)
  qed
qed

lemma conforms_step:
  assumes run: "conforms P fetch 0 chain 0 (pre @ (c, k, r) # post)" and d: "distinct chain"
  shows "k < 3 \<and> r = callCodex P (fetch (length pre) c) \<and> c \<in> set chain \<and>
     (case decide k r of
        Stop \<Rightarrow> post = []
      | Retry \<Rightarrow> post \<noteq> [] \<and> fst (hd post) = c \<and> fst (snd (hd post)) = Suc k
      | Advance \<Rightarrow>
          c \<notin> fst ` set post \<and>
          (if post = [] then c = last chain
           else fst (snd (hd post)) = 0 \<and> (\<exists>xs ys. chain = xs @ c # fst (hd post) # ys)))"
proof -
  from conforms_suffix [OF run] obtain cs' k' where
    suf: "suffix cs' chain" and at: "conforms P fetch (length pre) cs' k' ((c, k, r) # post)"
    by auto
  from at obtain cs0 where cs': "cs' = c # cs0" and k': "k' = k"
    by (cases cs') auto
  from suf cs' obtain xs where chain: "chain = xs @ c # cs0"
    by (auto simp: suffix_def)
  from at cs' k' have basic: "k < 3" "r = callCodex P (fetch (length pre) c)"
    by simp_all
  have mem: "c \<in> set chain" using chain by simp
  from d chain have nin: "c \<notin> set cs0" by simp
  have "case decide k r of
        Stop \<Rightarrow> post = []
      | Retry \<Rightarrow> post \<noteq> [] \<and> fst (hd post) = c \<and> fst (snd (hd post)) = Suc k
      | Advance \<Rightarrow>
          c \<notin> fst ` set post \<and>
          (if post = [] then c = last chain
           else fst (snd (hd post)) = 0 \<and> (\<exists>xs ys. chain = xs @ c # fst (hd post) # ys))"
  proof (cases "decide k r")
    case Stop
    with at cs' k' show ?thesis by simp
  next
    case Retry
    with at cs' k' have "conforms P fetch (Suc (length pre)) (c # cs0) (Suc k) post" by simp
    from conforms_head [OF this] Retry show ?thesis by simp
  next
    case Advance
    show ?thesis
    proof (cases "cs0 = []")
      case True
      with at cs' k' Advance have "post = []" by simp
      with Advance True chain show ?thesis by simp
    next
      case False
      with at cs' k' Advance have nx: "conforms P fetch (Suc (length pre)) cs0 0 post" by simp
      from conforms_head [OF nx] have h: "post \<noteq> []" "fst (hd post) = hd cs0" "fst (snd (hd post)) = 0"
        by simp_all
      from conforms_candidates [OF nx] nin have "c \<notin> fst ` set post" by auto
      moreover have "chain = xs @ c # fst (hd post) # tl cs0"
        using chain h(2) False by simp
      ultimately show ?thesis using Advance h by auto
    qed
  qed
  with basic mem show ?thesis by simp
qed

lemma conforms_count:
  "conforms P fetch n cs k tr \<Longrightarrow> distinct cs \<Longrightarrow>
   length (filter (\<lambda>x. fst x = c) tr) \<le> (if c = hd cs then 3 - k else 3)"
proof (induction P fetch n cs k tr rule: conforms.induct)
  case (3 P fetch n c0 cs k x rest)
  from "3.prems"(1) have x: "fst x = c0" and k3: "k < 3" by auto
  show ?case
  proof (cases "decide k (snd (snd x))")
    case Stop
    with "3.prems" have "rest = []" by simp
    with x k3 show ?thesis by (auto simp: Suc_le_eq)
  next
    case Retry
    with "3.prems" have "conforms P fetch (Suc n) (c0 # cs) (Suc k) rest" by simp
    from "3.IH"(1) [OF Retry this "3.prems"(2)] x k3 show ?thesis by (auto split: if_splits)
  next
    case Advance
    show ?thesis
    proof (cases "cs = []")
      case True
      with Advance "3.prems" have "rest = []" by simp
      with x k3 show ?thesis by (auto simp: Suc_le_eq)
    next
      case False
      with Advance "3.prems" have nx: "conforms P fetch (Suc n) cs 0 rest" by simp
      from "3.prems"(2) have dc: "distinct cs" and nin: "c0 \<notin> set cs" by simp_all
      from "3.IH"(2) [OF Advance False nx dc]
      have le: "length (filter (\<lambda>x. fst x = c) rest) \<le> 3" by (auto split: if_splits)
      show ?thesis
      proof (cases "c = c0")
        case True
        with conforms_candidates [OF nx] nin have "filter (\<lambda>x. fst x = c) rest = []"
          by (auto simp: filter_empty_conv)
        with True x k3 show ?thesis by (auto simp: Suc_le_eq)
      next
        case False
        with x le show ?thesis by simp
      qed
    qed
  qed
qed simp_all

lemma distinct_fallbackModels: "distinct (fallbackModels model)"
  using distinct_priority_models by (simp add: fallbackModels_eq)

lemma llm_codex_run:
  assumes "llm_codex P fetch (Some a) model = (res, tr)"
  shows "conforms P fetch 0 (fallbackModels model) 0 tr \<and> res = snd (snd (last tr))"
proof -
  let ?init = "\<lparr>lastError = None, calls = []\<rparr> :: 'a loop_state"
  obtain sig st where run: "candidates P fetch (fallbackModels model) ?init = (sig, st)"
    by (cases "candidates P fetch (fallbackModels model) ?init") auto
  have ne: "fallbackModels model \<noteq> []"
    by (simp add: fallbackModels_eq)
  from candidates_conforms [OF ne run]
  have c: "conforms P fetch 0 (fallbackModels model) 0 (calls st)" and e: "ended sig st (calls st)"
    by auto
  from assms run have tr: "tr = calls st"
    by (auto simp: llm_codex_def split: signal.splits option.splits)
  from assms run e have "res = snd (snd (last (calls st)))"
    by (auto simp: llm_codex_def ended_def split: signal.splits option.splits sum.splits)
  with c tr show ?thesis by simp
qed

lemma decide_400: "err_status e = Some 400 \<Longrightarrow> decide k (Inl e) = Advance"
  by (simp add: decide_def fatal_def)

lemma decide_transient:
  "err_status e \<in> {Some 429, Some 500, Some 503, None} \<Longrightarrow>
   decide k (Inl e) = (if Suc k < 3 then Retry else Advance)"
  by (auto simp: decide_def fatal_def)

lemma decide_fatal:
  "err_status e = Some s \<Longrightarrow> s \<notin> {0, 400, 429, 500, 503} \<Longrightarrow> decide k (Inl e) = Stop"
  by (simp add: decide_def fatal_def)

lemma callCodex_error_status:
  "callCodex P f = Inl e \<Longrightarrow> err_status e = Some s \<Longrightarrow> \<not> (200 \<le> s \<and> s \<le> 299)"
  by (cases f) (auto simp: ok_def split: if_splits sum.splits option.splits prod.splits stream_end.splits)

lemma run_advance:
  fixes P :: "'n platform"
  assumes run: "llm_codex P fetch (Some a) model = (res, pre @ (c, k, Inl e) # post)"
    and adv: "decide k (Inl e :: js_error + 'n json) = Advance"
  shows "c \<notin> fst ` set post \<and>
     (if post = [] then c = last (fallbackModels model) \<and> res = Inl e
      else fst (snd (hd post)) = 0 \<and> (\<exists>xs ys. fallbackModels model = xs @ c # fst (hd post) # ys))"
proof -
  note r = llm_codex_run [OF run]
  note s = conforms_step [OF r [THEN conjunct1] distinct_fallbackModels,
      THEN conjunct2, THEN conjunct2, THEN conjunct2, unfolded adv decision.case]
  show ?thesis
  proof (cases "post = []")
    case True
    with s r [THEN conjunct2] show ?thesis by simp
  next
    case False
    with s show ?thesis by simp
  qed
qed

lemma run_retry:
  fixes P :: "'n platform"
  assumes run: "llm_codex P fetch (Some a) model = (res, pre @ (c, k, Inl e) # post)"
    and adv: "decide k (Inl e :: js_error + 'n json) = Retry"
  shows "post \<noteq> [] \<and> fst (hd post) = c \<and> fst (snd (hd post)) = Suc k"
  by (rule conforms_step [OF llm_codex_run [OF run, THEN conjunct1] distinct_fallbackModels,
      THEN conjunct2, THEN conjunct2, THEN conjunct2, unfolded adv decision.case])

lemma run_stop:
  fixes P :: "'n platform"
  assumes run: "llm_codex P fetch (Some a) model = (res, pre @ (c, k, Inl e) # post)"
    and adv: "decide k (Inl e :: js_error + 'n json) = Stop"
  shows "post = [] \<and> res = Inl e"
proof -
  note r = llm_codex_run [OF run]
  note s = conforms_step [OF r [THEN conjunct1] distinct_fallbackModels,
      THEN conjunct2, THEN conjunct2, THEN conjunct2, unfolded adv decision.case]
  with r show ?thesis by simp
qed

lemma decimal_values: "decimal 400 = ''400''" "decimal 401 = ''401''" "decimal 500 = ''500''"
  by code_simp+

lemma hello_call: "callCodex demo_platform (Responded (ok_response [hello_body])) = Inr (JStr ''Hello'')"
  using hello_output [OF demo_parse_hello]
  by (simp add: ok_response_def ok_def read_loop_body)

lemma error_call:
  "\<not> (200 \<le> st \<and> st \<le> 299) \<Longrightarrow>
   callCodex P (Responded (error_response st text)) =
     Inl \<lparr>message = (if text \<noteq> [] then decimal st @ '' '' @ text else decimal st), err_status = Some st\<rparr>"
  by (simp add: error_response_def ok_def)

lemma flaky_calls:
  "callCodex demo_platform (flaky_net 0 m) = Inl \<lparr>message = ''400 unsupported model'', err_status = Some 400\<rparr>"
  "0 < k \<Longrightarrow> k < 3 \<Longrightarrow> callCodex demo_platform (flaky_net k m) = Inl \<lparr>message = ''500'', err_status = Some 500\<rparr>"
  "3 \<le> k \<Longrightarrow> callCodex demo_platform (flaky_net k m) = Inr (JStr ''Hello'')"
  by (simp_all add: flaky_net_def error_call decimal_values hello_call del: callCodex.simps)

lemma flaky_run:
  "llm_codex demo_platform flaky_net (Some demo_auth) ''o3'' = (Inr (JStr ''Hello''), flaky_trace)"
  by (simp add: llm_codex_def fallbackModels_eq priority_models_def attempts.simps flaky_calls
      fatal_def flaky_trace_def Let_def)

lemma denied_run:
  "llm_codex demo_platform denied_net (Some demo_auth) ''o3'' = (Inl denied_error, [(''o3'', 0, Inl denied_error)])"
  by (simp add: llm_codex_def fallbackModels_eq priority_models_def attempts.simps denied_net_def
      error_call decimal_values fatal_def denied_error_def Let_def del: callCodex.simps)

lemma offline_calls:
  "k < 2 \<Longrightarrow> callCodex demo_platform (offline_net k m) = Inl offline_error"
  "2 \<le> k \<Longrightarrow> callCodex demo_platform (offline_net k m) = Inr (JStr ''Hello'')"
  by (simp_all add: offline_net_def offline_error_def hello_call del: callCodex.simps)
     simp

lemma offline_run:
  "llm_codex demo_platform offline_net (Some demo_auth) ''o3'' = (Inr (JStr ''Hello''), offline_trace)"
  by (simp add: llm_codex_def fallbackModels_eq priority_models_def attempts.simps offline_calls
      fatal_def offline_trace_def Let_def)
     (simp add: offline_error_def)

lemma down_run:
  "llm_codex demo_platform down_net (Some demo_auth) ''o3'' = (Inl offline_error, down_trace)"
  by (simp add: llm_codex_def fallbackModels_eq priority_models_def attempts.simps down_net_def
      fatal_def down_trace_def three_failures_def offline_error_def Let_def)

text \<open>
  C2.  A run of the Codex branch of \<open>llm\<close> with a credential, seen as the list of attempts
  it made (candidate, attempt index, outcome) and its result.
  \<^item> No candidate is attempted more than three times; the first attempt is for the requested
    model; every attempt has an index below 3 and its outcome is what \<open>callCodex\<close> made of the
    answer to that request.  An error \<open>callCodex\<close> tags with a status never has a 2xx status.
  \<^item> After a failure with status 400 the candidate is not attempted again: the next attempt,
    if there is one, is attempt 0 of the candidate that follows it in the chain; if there is
    none, the candidate was the last of the chain and its error is the result.
  \<^item> After a failure with status 429, 500 or 503 the next attempt is the same candidate's
    next one, unless it was the third: then the loop goes on as after a 400.
  \<^item> A failure with any other status (not 0) is the last attempt and its error is the result.
  \<^item> The result is always the outcome of the last attempt made.
\<close>

theorem retry_policy:
  fixes P :: "'n platform"
  assumes "llm_codex P fetch (Some a) model = (res, tr)"
  shows "(\<forall>c. length (filter (\<lambda>x. fst x = c) tr) \<le> 3)
    \<and> tr \<noteq> [] \<and> fst (hd tr) = model
    \<and> (\<forall>pre c k r post. tr = pre @ (c, k, r) # post \<longrightarrow>
          k < 3 \<and> r = callCodex P (fetch (length pre) c))
    \<and> (\<forall>f e s. callCodex P f = Inl e \<and> err_status e = Some s \<longrightarrow> \<not> (200 \<le> s \<and> s \<le> 299))
    \<and> (\<forall>pre c k e post. tr = pre @ (c, k, Inl e) # post \<and> err_status e = Some 400 \<longrightarrow>
          c \<notin> fst ` set post \<and>
          (if post = [] then c = last (fallbackModels model) \<and> res = Inl e
           else fst (snd (hd post)) = 0 \<and> (\<exists>xs ys. fallbackModels model = xs @ c # fst (hd post) # ys)))
    \<and> (\<forall>pre c k e post. tr = pre @ (c, k, Inl e) # post
            \<and> err_status e \<in> {Some 429, Some 500, Some 503} \<longrightarrow>
          (if Suc k < 3 then post \<noteq> [] \<and> fst (hd post) = c \<and> fst (snd (hd post)) = Suc k
           else c \<notin> fst ` set post \<and>
             (if post = [] then c = last (fallbackModels model) \<and> res = Inl e
              else fst (snd (hd post)) = 0
                \<and> (\<exists>xs ys. fallbackModels model = xs @ c # fst (hd post) # ys))))
    \<and> (\<forall>pre c k e post s. tr = pre @ (c, k, Inl e) # post \<and> err_status e = Some s
            \<and> s \<notin> {0, 400, 429, 500, 503} \<longrightarrow>
          post = [] \<and> res = Inl e)
    \<and> res = snd (snd (last tr))"
proof -
  note r = llm_codex_run [OF assms]
  have count: "length (filter (\<lambda>x. fst x = c) tr) \<le> 3" for c
    using conforms_count [OF r [THEN conjunct1] distinct_fallbackModels, of c]
    by (simp split: if_splits)
  have first: "tr \<noteq> [] \<and> fst (hd tr) = model"
    using conforms_head [OF r [THEN conjunct1]] by (simp add: fallbackModels_eq)
  have each: "k < 3 \<and> r = callCodex P (fetch (length pre) c)"
    if "tr = pre @ (c, k, r) # post" for pre c k r post
    using conforms_step [OF r [THEN conjunct1, unfolded that] distinct_fallbackModels] by simp
  have bad: "c \<notin> fst ` set post \<and>
          (if post = [] then c = last (fallbackModels model) \<and> res = Inl e
           else fst (snd (hd post)) = 0 \<and> (\<exists>xs ys. fallbackModels model = xs @ c # fst (hd post) # ys))"
    if "tr = pre @ (c, k, Inl e) # post" "err_status e = Some 400" for pre c k e post
    by (rule run_advance [OF assms [unfolded that(1)] decide_400 [OF that(2)]])
  have transient: "if Suc k < 3 then post \<noteq> [] \<and> fst (hd post) = c \<and> fst (snd (hd post)) = Suc k
           else c \<notin> fst ` set post \<and>
             (if post = [] then c = last (fallbackModels model) \<and> res = Inl e
              else fst (snd (hd post)) = 0
                \<and> (\<exists>xs ys. fallbackModels model = xs @ c # fst (hd post) # ys))"
    if "tr = pre @ (c, k, Inl e) # post" "err_status e \<in> {Some 429, Some 500, Some 503}"
    for pre c k e post
  proof -
    from that(2) have d: "decide k (Inl e :: js_error + 'n json) = (if Suc k < 3 then Retry else Advance)"
      by (intro decide_transient) auto
    show ?thesis
    proof (cases "Suc k < 3")
      case True
      with d run_retry [OF assms [unfolded that(1)]] show ?thesis by simp
    next
      case False
      with d run_advance [OF assms [unfolded that(1)]] show ?thesis by simp
    qed
  qed
  have other: "post = [] \<and> res = Inl e"
    if "tr = pre @ (c, k, Inl e) # post" "err_status e = Some s" "s \<notin> {0, 400, 429, 500, 503}"
    for pre c k e post s
    by (rule run_stop [OF assms [unfolded that(1)] decide_fatal [OF that(2,3)]])
  have c1: "\<forall>c. length (filter (\<lambda>x. fst x = c) tr) \<le> 3"
    using count by blast
  have c4: "\<forall>pre c k r post. tr = pre @ (c, k, r) # post \<longrightarrow>
          k < 3 \<and> r = callCodex P (fetch (length pre) c)"
    using each by blast
  have c5: "\<forall>f e s. callCodex P f = Inl e \<and> err_status e = Some s \<longrightarrow> \<not> (200 \<le> s \<and> s \<le> 299)"
    using callCodex_error_status [of P] by blast
  have c6: "\<forall>pre c k e post. tr = pre @ (c, k, Inl e) # post \<and> err_status e = Some 400 \<longrightarrow>
          c \<notin> fst ` set post \<and>
          (if post = [] then c = last (fallbackModels model) \<and> res = Inl e
           else fst (snd (hd post)) = 0 \<and> (\<exists>xs ys. fallbackModels model = xs @ c # fst (hd post) # ys))"
    using bad by blast
  have c7: "\<forall>pre c k e post. tr = pre @ (c, k, Inl e) # post
            \<and> err_status e \<in> {Some 429, Some 500, Some 503} \<longrightarrow>
          (if Suc k < 3 then post \<noteq> [] \<and> fst (hd post) = c \<and> fst (snd (hd post)) = Suc k
           else c \<notin> fst ` set post \<and>
             (if post = [] then c = last (fallbackModels model) \<and> res = Inl e
              else fst (snd (hd post)) = 0
                \<and> (\<exists>xs ys. fallbackModels model = xs @ c # fst (hd post) # ys)))"
    using transient by blast
  have c8: "\<forall>pre c k e post s. tr = pre @ (c, k, Inl e) # post \<and> err_status e = Some s
            \<and> s \<notin> {0, 400, 429, 500, 503} \<longrightarrow>
          post = [] \<and> res = Inl e"
    using other by blast
  from c1 first [THEN conjunct1] first [THEN conjunct2] c4 c5 c6 c7 c8 r [THEN conjunct2]
  show ?thesis by (intro conjI)
qed

theorem retry_policy_witness:
  "(\<forall>c. length (filter (\<lambda>x. fst x = c) flaky_trace) \<le> 3)
   \<and> ''o3'' \<notin> fst ` set (tl flaky_trace)
   \<and> (\<exists>xs ys. fallbackModels ''o3'' = xs @ ''o3'' # ''gpt-5.3-codex'' # ys)
   \<and> fst (snd (flaky_trace ! 1)) = 0
   \<and> flaky_trace ! 2 = (''gpt-5.3-codex'', 1, Inl \<lparr>message = ''500'', err_status = Some 500\<rparr>)
   \<and> snd (snd (last flaky_trace)) = Inr (JStr ''Hello'')
   \<and> llm_codex demo_platform denied_net (Some demo_auth) ''o3'' = (Inl denied_error, [(''o3'', 0, Inl denied_error)])"
proof -
  note th = retry_policy [OF flaky_run]
  let ?e400 = "\<lparr>message = ''400 unsupported model'', err_status = Some 400\<rparr>"
  let ?e500 = "\<lparr>message = ''500'', err_status = Some 500\<rparr>"
  have split0: "flaky_trace = [] @ (''o3'', 0, Inl ?e400) # tl flaky_trace \<and> err_status ?e400 = Some 400"
    by (simp add: flaky_trace_def)
  have split1: "flaky_trace = [hd flaky_trace] @ (''gpt-5.3-codex'', 0, Inl ?e500) # drop 2 flaky_trace
      \<and> err_status ?e500 \<in> {Some 429, Some 500, Some 503}"
    by (simp add: flaky_trace_def)
  note a = th [THEN conjunct1]
  note b = th [THEN conjunct2, THEN conjunct2, THEN conjunct2, THEN conjunct2, THEN conjunct2,
      THEN conjunct1, rule_format, OF split0]
  note c = th [THEN conjunct2, THEN conjunct2, THEN conjunct2, THEN conjunct2, THEN conjunct2,
      THEN conjunct2, THEN conjunct1, rule_format, OF split1]
  note d = th [THEN conjunct2, THEN conjunct2, THEN conjunct2, THEN conjunct2, THEN conjunct2,
      THEN conjunct2, THEN conjunct2, THEN conjunct2]
  have split2: "[(''o3'', 0, Inl denied_error)] = [] @ (''o3'', 0, Inl denied_error) # []
      \<and> err_status denied_error = Some 401 \<and> (401::nat) \<notin> {0, 400, 429, 500, 503}"
    by (simp add: denied_error_def)
  note e = retry_policy [OF denied_run, THEN conjunct2, THEN conjunct2, THEN conjunct2,
      THEN conjunct2, THEN conjunct2, THEN conjunct2, THEN conjunct2, THEN conjunct1,
      rule_format, OF split2]
  from b have b': "''o3'' \<notin> fst ` set (tl flaky_trace)
      \<and> (\<exists>xs ys. fallbackModels ''o3'' = xs @ ''o3'' # ''gpt-5.3-codex'' # ys)
      \<and> fst (snd (flaky_trace ! 1)) = 0"
    by (simp add: flaky_trace_def)
  from c have c': "flaky_trace ! 2 = (''gpt-5.3-codex'', 1, Inl ?e500)"
    by (simp add: flaky_trace_def)
  from d have d': "snd (snd (last flaky_trace)) = Inr (JStr ''Hello'')"
    by simp
  from a b' c' d' e denied_run show ?thesis by simp
qed

text \<open>
  A run in which every request fails with no status attempts each candidate three times.
\<close>

lemma upt_0_3: "[0..<3] = [0, 1, 2::nat]"
  by (simp add: upt_rec)

lemma statusless_positions:
  fixes P :: "'n platform"
  shows "conforms P fetch n cs k tr \<Longrightarrow>
     (\<forall>k c. \<exists>e. callCodex P (fetch k c) = Inl e \<and> err_status e = None) \<Longrightarrow>
     map (\<lambda>x. (fst x, fst (snd x))) tr =
       map (\<lambda>j. (hd cs, j)) [k..<3] @ concat (map (\<lambda>c. [(c, 0), (c, 1), (c, 2)]) (tl cs))"
proof (induction P fetch n cs k tr rule: conforms.induct)
  case (3 P fetch n c cs k x rest)
  note fail = "3.prems"(2)
  from "3.prems" have x: "x = (c, k, callCodex P (fetch n c))" and k3: "k < 3" by auto
  obtain e where e: "callCodex P (fetch n c) = Inl e" "err_status e = None"
    using fail by blast
  have d: "decide k (snd (snd x)) = (if Suc k < 3 then Retry else Advance)"
    using x e decide_transient [of e k] by simp
  have up: "[k..<3] = k # [Suc k..<3]"
    using k3 by (simp add: upt_conv_Cons)
  show ?case
  proof (cases "Suc k < 3")
    case True
    with d have r: "decide k (snd (snd x)) = Retry" by simp
    with "3.prems" have "conforms P fetch (Suc n) (c # cs) (Suc k) rest" by simp
    from "3.IH"(1) [OF r this fail] x up show ?thesis by simp
  next
    case False
    with d have a: "decide k (snd (snd x)) = Advance" by simp
    from False k3 have k2: "[Suc k..<3] = []" by simp
    show ?thesis
    proof (cases "cs = []")
      case True
      with a "3.prems" have "rest = []" by simp
      with x up k2 True show ?thesis by simp
    next
      case False
      with a "3.prems" have nx: "conforms P fetch (Suc n) cs 0 rest" by simp
      from False obtain c' cs' where cs: "cs = c' # cs'" by (cases cs) auto
      from "3.IH"(2) [OF a False nx fail] x up k2 cs show ?thesis by (simp add: upt_0_3)
    qed
  qed
qed simp_all

lemma three_each_length:
  "length (concat (map (\<lambda>c. [(c, 0::nat), (c, 1), (c, 2)]) cs)) = 3 * length cs"
  by (induction cs) simp_all

lemma three_each_last:
  "cs \<noteq> [] \<Longrightarrow> last (concat (map (\<lambda>c. [(c, 0::nat), (c, 1), (c, 2)]) cs)) = (last cs, 2)"
  by (induction cs) simp_all

lemma statusless_run:
  fixes P :: "'n platform"
  assumes "conforms P fetch 0 cs 0 tr"
    and "\<forall>k c. \<exists>e. callCodex P (fetch k c) = Inl e \<and> err_status e = None"
  shows "map (\<lambda>x. (fst x, fst (snd x))) tr = concat (map (\<lambda>c. [(c, 0), (c, 1), (c, 2)]) cs)"
proof -
  from conforms_head [OF assms(1)] obtain c cs' where cs: "cs = c # cs'"
    by (cases cs) auto
  from statusless_positions [OF assms] cs show ?thesis
    by (simp add: upt_0_3)
qed

lemma stalled_calls:
  "callCodex demo_platform (stalled_net 0 m) = Inl stalled_error"
  "0 < k \<Longrightarrow> callCodex demo_platform (stalled_net k m) = Inr (JStr ''Hello'')"
proof -
  show "callCodex demo_platform (stalled_net 0 m) = Inl stalled_error"
    by (simp add: stalled_net_def stalled_error_def ok_def ok_response_def)
  show "0 < k \<Longrightarrow> callCodex demo_platform (stalled_net k m) = Inr (JStr ''Hello'')"
    by (simp add: stalled_net_def hello_call del: callCodex.simps)
qed

text \<open>
  C10.  A failure whose error has no status: a rejected \<open>fetch\<close>, a failed read of the
  error text or of the stream.  A run with a credential makes at least one request, the first
  for the requested model, and every attempt it lists is a request it made, in order.
  \<^item> A failure with no status is never the end of the run unless it was the third attempt of
    the last candidate.  Before its third attempt, the next request is the same candidate's
    next attempt.  At its third, the candidate is not attempted again and the next request
    is attempt 0 of the candidate that follows it in the chain; after the third attempt of
    the last candidate there is no request and that error is the result.
  \<^item> So when the first request fails with no status there is a second request, attempt 1 of
    the requested model.  When every request fails with no status, the run makes three
    requests for each candidate of the chain, in chain order, and its result is the error of the
    last one; a network that rejects every request is such a case.
\<close>

theorem statusless_failure:
  fixes P :: "'n platform"
  assumes "llm_codex P fetch (Some a) model = (res, tr)"
  shows "tr \<noteq> [] \<and> hd tr = (model, 0, callCodex P (fetch 0 model))
    \<and> (\<forall>pre c k r post. tr = pre @ (c, k, r) # post \<longrightarrow>
          k < 3 \<and> r = callCodex P (fetch (length pre) c))
    \<and> (\<forall>pre c k e post. tr = pre @ (c, k, Inl e) # post \<and> err_status e = None \<longrightarrow>
          (if Suc k < 3
           then post \<noteq> [] \<and> hd post = (c, Suc k, callCodex P (fetch (Suc (length pre)) c))
           else k = 2 \<and> c \<notin> fst ` set post \<and>
             (if post = [] then c = last (fallbackModels model) \<and> res = Inl e
              else \<exists>c' xs ys. hd post = (c', 0, callCodex P (fetch (Suc (length pre)) c'))
                     \<and> fallbackModels model = xs @ c # c' # ys)))
    \<and> (\<forall>e. callCodex P (fetch 0 model) = Inl e \<and> err_status e = None \<longrightarrow>
          2 \<le> length tr \<and> tr ! 1 = (model, 1, callCodex P (fetch 1 model)))
    \<and> ((\<forall>k c. \<exists>e. callCodex P (fetch k c) = Inl e \<and> err_status e = None) \<longrightarrow>
          map (\<lambda>x. (fst x, fst (snd x))) tr =
            concat (map (\<lambda>c. [(c, 0), (c, 1), (c, 2)]) (fallbackModels model))
          \<and> length tr = 3 * length (fallbackModels model)
          \<and> res = callCodex P (fetch (length tr - 1) (last (fallbackModels model))))
    \<and> ((\<forall>k c. \<exists>m. fetch k c = Rejected m) \<longrightarrow>
          length tr = 3 * length (fallbackModels model)
          \<and> (\<exists>m. fetch (length tr - 1) (last (fallbackModels model)) = Rejected m
                \<and> res = Inl \<lparr>message = m, err_status = None\<rparr>))
    \<and> res = snd (snd (last tr))"
proof -
  note r = llm_codex_run [OF assms]
  have first: "tr \<noteq> [] \<and> hd tr = (model, 0, callCodex P (fetch 0 model))"
    using conforms_head [OF r [THEN conjunct1]] by (simp add: fallbackModels_eq)
  have each: "k < 3 \<and> r = callCodex P (fetch (length pre) c)"
    if "tr = pre @ (c, k, r) # post" for pre c k r post
    using conforms_step [OF r [THEN conjunct1, unfolded that] distinct_fallbackModels] by simp
  have none: "if Suc k < 3
           then post \<noteq> [] \<and> hd post = (c, Suc k, callCodex P (fetch (Suc (length pre)) c))
           else k = 2 \<and> c \<notin> fst ` set post \<and>
             (if post = [] then c = last (fallbackModels model) \<and> res = Inl e
              else \<exists>c' xs ys. hd post = (c', 0, callCodex P (fetch (Suc (length pre)) c'))
                     \<and> fallbackModels model = xs @ c # c' # ys)"
    if "tr = pre @ (c, k, Inl e) # post" "err_status e = None" for pre c k e post
  proof -
    from that(2) have d: "decide k (Inl e :: js_error + 'n json) = (if Suc k < 3 then Retry else Advance)"
      by (intro decide_transient) auto
    from each [OF that(1)] have k3: "k < 3" by simp
    have nxt: "hd post = (fst (hd post), fst (snd (hd post)),
        callCodex P (fetch (Suc (length pre)) (fst (hd post))))" if ne: "post \<noteq> []"
    proof -
      obtain c' k' r' where h: "hd post = (c', k', r')" by (cases "hd post") auto
      with ne have "post = (c', k', r') # tl post" by (cases post) auto
      with \<open>tr = pre @ (c, k, Inl e) # post\<close>
      have "tr = (pre @ [(c, k, Inl e)]) @ (c', k', r') # tl post" by simp
      from each [OF this] h show ?thesis by simp
    qed
    show ?thesis
    proof (cases "Suc k < 3")
      case True
      with d run_retry [OF assms [unfolded that(1)]]
      have p: "post \<noteq> [] \<and> fst (hd post) = c \<and> fst (snd (hd post)) = Suc k" by simp
      with nxt have "hd post = (c, Suc k, callCodex P (fetch (Suc (length pre)) c))" by simp
      with p True show ?thesis by simp
    next
      case False
      with k3 have k2: "k = 2" by simp
      from False d run_advance [OF assms [unfolded that(1)]]
      have p: "c \<notin> fst ` set post \<and>
          (if post = [] then c = last (fallbackModels model) \<and> res = Inl e
           else fst (snd (hd post)) = 0
             \<and> (\<exists>xs ys. fallbackModels model = xs @ c # fst (hd post) # ys))" by simp
      show ?thesis
      proof (cases "post = []")
        case True
        with p k2 False show ?thesis by simp
      next
        case ne: False
        with p obtain xs ys where q: "fst (snd (hd post)) = 0"
          "fallbackModels model = xs @ c # fst (hd post) # ys" by auto
        from nxt [OF ne] q(1)
        have "hd post = (fst (hd post), 0, callCodex P (fetch (Suc (length pre)) (fst (hd post))))"
          by simp
        with q(2) have "\<exists>c' xs ys. hd post = (c', 0, callCodex P (fetch (Suc (length pre)) c'))
                     \<and> fallbackModels model = xs @ c # c' # ys" by blast
        with p k2 ne False show ?thesis by simp
      qed
    qed
  qed
  have second: "2 \<le> length tr \<and> tr ! 1 = (model, 1, callCodex P (fetch 1 model))"
    if "callCodex P (fetch 0 model) = Inl e" "err_status e = None" for e
  proof -
    from first that(1) have "tr = [] @ (model, 0, Inl e) # tl tr" by (cases tr) auto
    from none [OF this that(2)]
    have t: "tl tr \<noteq> [] \<and> hd (tl tr) = (model, 1, callCodex P (fetch 1 model))" by simp
    then obtain x y zs where "tr = x # y # zs" by (cases tr; cases "tl tr") auto
    with t show ?thesis by simp
  qed
  have whole: "map (\<lambda>x. (fst x, fst (snd x))) tr =
            concat (map (\<lambda>c. [(c, 0), (c, 1), (c, 2)]) (fallbackModels model))
          \<and> length tr = 3 * length (fallbackModels model)
          \<and> res = callCodex P (fetch (length tr - 1) (last (fallbackModels model)))"
    if fail: "\<forall>k c. \<exists>e. callCodex P (fetch k c) = Inl e \<and> err_status e = None"
  proof -
    let ?f = "\<lambda>c. [(c, 0::nat), (c, 1), (c, 2)]"
    let ?g = "\<lambda>x :: 'n attempt. (fst x, fst (snd x))"
    have m: "map ?g tr = concat (map ?f (fallbackModels model))"
      by (rule statusless_run [OF r [THEN conjunct1] fail])
    have "length tr = length (map ?g tr)" by simp
    also have "\<dots> = 3 * length (fallbackModels model)"
      unfolding m by (rule three_each_length)
    finally have l: "length tr = 3 * length (fallbackModels model)" .
    from first have ne: "tr \<noteq> []" by simp
    with l have ch: "fallbackModels model \<noteq> []" by auto
    from ne have "?g (last tr) = last (map ?g tr)" by (simp add: last_map)
    also have "\<dots> = (last (fallbackModels model), 2)"
      unfolding m by (rule three_each_last [OF ch])
    finally have c: "fst (last tr) = last (fallbackModels model)" by simp
    obtain c' k' r' where h: "last tr = (c', k', r')" by (cases "last tr") auto
    with append_butlast_last_id [OF ne] have "tr = butlast tr @ (c', k', r') # []" by simp
    from each [OF this] have "r' = callCodex P (fetch (length tr - 1) c')" by simp
    with h c r [THEN conjunct2]
    have "res = callCodex P (fetch (length tr - 1) (last (fallbackModels model)))" by simp
    with m l show ?thesis by simp
  qed
  have rejected: "length tr = 3 * length (fallbackModels model)
          \<and> (\<exists>m. fetch (length tr - 1) (last (fallbackModels model)) = Rejected m
                \<and> res = Inl \<lparr>message = m, err_status = None\<rparr>)"
    if rej: "\<forall>k c. \<exists>m. fetch k c = Rejected m"
  proof -
    have "\<exists>e. callCodex P (fetch k c) = Inl e \<and> err_status e = None" for k c
    proof -
      from rej obtain m where "fetch k c = Rejected m" by blast
      then show ?thesis by simp
    qed
    then have "\<forall>k c. \<exists>e. callCodex P (fetch k c) = Inl e \<and> err_status e = None" by blast
    note w = whole [OF this]
    from rej obtain m where m: "fetch (length tr - 1) (last (fallbackModels model)) = Rejected m"
      by blast
    with w have "res = Inl \<lparr>message = m, err_status = None\<rparr>" by simp
    with m w show ?thesis by blast
  qed
  have c2: "\<forall>pre c k r post. tr = pre @ (c, k, r) # post \<longrightarrow>
          k < 3 \<and> r = callCodex P (fetch (length pre) c)"
    using each by blast
  have c3: "\<forall>pre c k e post. tr = pre @ (c, k, Inl e) # post \<and> err_status e = None \<longrightarrow>
          (if Suc k < 3
           then post \<noteq> [] \<and> hd post = (c, Suc k, callCodex P (fetch (Suc (length pre)) c))
           else k = 2 \<and> c \<notin> fst ` set post \<and>
             (if post = [] then c = last (fallbackModels model) \<and> res = Inl e
              else \<exists>c' xs ys. hd post = (c', 0, callCodex P (fetch (Suc (length pre)) c'))
                     \<and> fallbackModels model = xs @ c # c' # ys))"
    using none by blast
  have c4: "\<forall>e. callCodex P (fetch 0 model) = Inl e \<and> err_status e = None \<longrightarrow>
          2 \<le> length tr \<and> tr ! 1 = (model, 1, callCodex P (fetch 1 model))"
    using second by blast
  have c5: "(\<forall>k c. \<exists>e. callCodex P (fetch k c) = Inl e \<and> err_status e = None) \<longrightarrow>
          map (\<lambda>x. (fst x, fst (snd x))) tr =
            concat (map (\<lambda>c. [(c, 0), (c, 1), (c, 2)]) (fallbackModels model))
          \<and> length tr = 3 * length (fallbackModels model)
          \<and> res = callCodex P (fetch (length tr - 1) (last (fallbackModels model)))"
    using whole by blast
  have c6: "(\<forall>k c. \<exists>m. fetch k c = Rejected m) \<longrightarrow>
          length tr = 3 * length (fallbackModels model)
          \<and> (\<exists>m. fetch (length tr - 1) (last (fallbackModels model)) = Rejected m
                \<and> res = Inl \<lparr>message = m, err_status = None\<rparr>)"
    using rejected by blast
  from first have c0: "tr \<noteq> []" and c1: "hd tr = (model, 0, callCodex P (fetch 0 model))"
    by simp_all
  note c7 = r [THEN conjunct2]
  from c0 c1 c2 c3 c4 c5 c6 c7 show ?thesis by (intro conjI)
qed

theorem statusless_failure_witness:
  "length (snd (llm_codex demo_platform down_net (Some demo_auth) ''o3'')) = 18
   \<and> fst (llm_codex demo_platform down_net (Some demo_auth) ''o3'') = Inl offline_error
   \<and> map (\<lambda>x. (fst x, fst (snd x))) (snd (llm_codex demo_platform down_net (Some demo_auth) ''o3'')) =
       [(''o3'', 0), (''o3'', 1), (''o3'', 2),
        (''gpt-5.3-codex'', 0), (''gpt-5.3-codex'', 1), (''gpt-5.3-codex'', 2),
        (''gpt-5.2-codex'', 0), (''gpt-5.2-codex'', 1), (''gpt-5.2-codex'', 2),
        (''gpt-5.1-codex'', 0), (''gpt-5.1-codex'', 1), (''gpt-5.1-codex'', 2),
        (''gpt-5.1-codex-mini'', 0), (''gpt-5.1-codex-mini'', 1), (''gpt-5.1-codex-mini'', 2),
        (''gpt-5.1-codex-max'', 0), (''gpt-5.1-codex-max'', 1), (''gpt-5.1-codex-max'', 2)]
   \<and> hd (drop 3 (snd (llm_codex demo_platform down_net (Some demo_auth) ''o3''))) =
       (''gpt-5.3-codex'', 0, Inl offline_error)
   \<and> ''o3'' \<notin> fst ` set (drop 3 (snd (llm_codex demo_platform down_net (Some demo_auth) ''o3'')))
   \<and> last (fallbackModels ''o3'') = ''gpt-5.1-codex-max''
   \<and> snd (llm_codex demo_platform offline_net (Some demo_auth) ''o3'') ! 1 =
       (''o3'', 1, Inl offline_error)
   \<and> snd (llm_codex demo_platform offline_net (Some demo_auth) ''o3'') ! 2 =
       (''o3'', 2, Inr (JStr ''Hello''))
   \<and> fst (llm_codex demo_platform offline_net (Some demo_auth) ''o3'') = Inr (JStr ''Hello'')
   \<and> hd (snd (llm_codex demo_platform stalled_net (Some demo_auth) ''o3'')) =
       (''o3'', 0, Inl stalled_error)
   \<and> snd (llm_codex demo_platform stalled_net (Some demo_auth) ''o3'') ! 1 =
       (''o3'', 1, Inr (JStr ''Hello''))"
proof -
  let ?down = "llm_codex demo_platform down_net (Some demo_auth) ''o3''"
  let ?off = "llm_codex demo_platform offline_net (Some demo_auth) ''o3''"
  let ?stalled = "llm_codex demo_platform stalled_net (Some demo_auth) ''o3''"
  note down = statusless_failure [of demo_platform down_net demo_auth "''o3''" "fst ?down" "snd ?down",
      OF prod.collapse [symmetric]]
  note off = statusless_failure [of demo_platform offline_net demo_auth "''o3''" "fst ?off" "snd ?off",
      OF prod.collapse [symmetric]]
  note stalled = statusless_failure [of demo_platform stalled_net demo_auth "''o3''"
      "fst ?stalled" "snd ?stalled", OF prod.collapse [symmetric]]
  note each = conjunct2 [THEN conjunct2, THEN conjunct1]
  note none = conjunct2 [THEN conjunct2, THEN conjunct2, THEN conjunct1]
  note second = conjunct2 [THEN conjunct2, THEN conjunct2, THEN conjunct2, THEN conjunct1]
  note whole = conjunct2 [THEN conjunct2, THEN conjunct2, THEN conjunct2, THEN conjunct2,
      THEN conjunct1]
  note rejected = conjunct2 [THEN conjunct2, THEN conjunct2, THEN conjunct2, THEN conjunct2,
      THEN conjunct2, THEN conjunct1]
  note result = conjunct2 [THEN conjunct2, THEN conjunct2, THEN conjunct2, THEN conjunct2,
      THEN conjunct2, THEN conjunct2]
  have chain: "fallbackModels ''o3'' =
      [''o3'', ''gpt-5.3-codex'', ''gpt-5.2-codex'', ''gpt-5.1-codex'', ''gpt-5.1-codex-mini'',
       ''gpt-5.1-codex-max'']"
    by (simp add: fallbackModels_eq priority_models_def)
  have all_rejected: "\<forall>k c. \<exists>m. down_net k c = Rejected m"
    by (simp add: down_net_def)
  have all_statusless:
    "\<forall>k c. \<exists>e. callCodex demo_platform (down_net k c) = Inl e \<and> err_status e = None"
    by (simp add: down_net_def)
  from down [THEN rejected, THEN mp, OF all_rejected]
  have a: "length (snd ?down) = 18 \<and> fst ?down = Inl offline_error"
    by (simp add: chain down_net_def offline_error_def)
  from down [THEN whole, THEN mp, OF all_statusless]
  have b: "map (\<lambda>x. (fst x, fst (snd x))) (snd ?down) =
       [(''o3'', 0), (''o3'', 1), (''o3'', 2),
        (''gpt-5.3-codex'', 0), (''gpt-5.3-codex'', 1), (''gpt-5.3-codex'', 2),
        (''gpt-5.2-codex'', 0), (''gpt-5.2-codex'', 1), (''gpt-5.2-codex'', 2),
        (''gpt-5.1-codex'', 0), (''gpt-5.1-codex'', 1), (''gpt-5.1-codex'', 2),
        (''gpt-5.1-codex-mini'', 0), (''gpt-5.1-codex-mini'', 1), (''gpt-5.1-codex-mini'', 2),
        (''gpt-5.1-codex-max'', 0), (''gpt-5.1-codex-max'', 1), (''gpt-5.1-codex-max'', 2)]"
    by (simp add: chain)
  have tr_down: "snd ?down = down_trace" and tr_off: "snd ?off = offline_trace"
    by (simp_all add: down_run offline_run)
  have split2: "snd ?down = take 2 down_trace @ (''o3'', 2, Inl offline_error) # drop 3 (snd ?down)
      \<and> err_status offline_error = None"
    by (simp add: tr_down down_trace_def three_failures_def offline_error_def)
  have split17: "snd ?down = take 17 down_trace @ (''gpt-5.1-codex-max'', 2, Inl offline_error) # []
      \<and> err_status offline_error = None"
    by (simp add: tr_down down_trace_def three_failures_def offline_error_def)
  from down [THEN none, rule_format, OF split2]
  have c: "hd (drop 3 (snd ?down)) = (''gpt-5.3-codex'', 0, Inl offline_error)
      \<and> ''o3'' \<notin> fst ` set (drop 3 (snd ?down))"
    by (simp add: tr_down down_trace_def three_failures_def down_net_def offline_error_def)
  from down [THEN none, rule_format, OF split17]
  have d: "last (fallbackModels ''o3'') = ''gpt-5.1-codex-max''"
    by simp
  have first_off: "callCodex demo_platform (offline_net 0 ''o3'') = Inl offline_error
      \<and> err_status offline_error = None"
    by (simp add: offline_net_def offline_error_def)
  from off [THEN second, rule_format, OF first_off]
  have e: "snd ?off ! 1 = (''o3'', 1, Inl offline_error)"
    by (simp add: offline_net_def offline_error_def)
  have split_off: "snd ?off = [(''o3'', 0, Inl offline_error)] @ (''o3'', 1, Inl offline_error) # drop 2 (snd ?off)
      \<and> err_status offline_error = None"
    by (simp add: tr_off offline_trace_def offline_error_def)
  from off [THEN none, rule_format, OF split_off]
  have f: "snd ?off ! 2 = (''o3'', 2, Inr (JStr ''Hello''))"
    by (simp add: tr_off offline_trace_def offline_calls del: callCodex.simps)
  from off [THEN result]
  have g: "fst ?off = Inr (JStr ''Hello'')"
    by (simp add: tr_off offline_trace_def)
  from stalled [THEN conjunct2, THEN conjunct1]
  have h: "hd (snd ?stalled) = (''o3'', 0, Inl stalled_error)"
    by (simp add: stalled_calls del: callCodex.simps)
  have first_stalled: "callCodex demo_platform (stalled_net 0 ''o3'') = Inl stalled_error
      \<and> err_status stalled_error = None"
    by (simp add: stalled_calls del: callCodex.simps) (simp add: stalled_error_def)
  from stalled [THEN second, rule_format, OF first_stalled]
  have i: "snd ?stalled ! 1 = (''o3'', 1, Inr (JStr ''Hello''))"
    by (simp add: stalled_calls del: callCodex.simps)
  from a b c d e f g h i show ?thesis by (intro conjI) simp_all
qed

end
